theory Spec2Isabelle
  imports Main "HOL-Library.Sublist" "HOL-Library.Multiset"
    "HOL-Library.Product_Lexorder" "HOL-Library.List_Lexorder"
begin

section \<open>Python strings\<close>

text \<open>
  A Python \<open>str\<close> is a sequence of Unicode code points, so a string is a list of
  natural numbers; \<open>ascii\<close> embeds a literal. The en-dash of the source is the code
  point 8211 (U+2013).
\<close>

type_synonym pystr = "nat list"

definition ascii :: "string \<Rightarrow> pystr" where
  "ascii s = map of_char s"

text \<open>
  \<open>str.isspace\<close> for one code point (Unicode 14, CPython 3.11): the characters
  \<open>str.split()\<close> and \<open>str.strip()\<close> treat as whitespace.
\<close>

definition isspace :: "nat \<Rightarrow> bool" where
  "isspace c = (c \<in> set [9, 10, 11, 12, 13, 28, 29, 30, 31, 32, 133, 160, 5760,
                          8232, 8233, 8239, 8287, 12288] \<or> (8192 \<le> c \<and> c \<le> 8202))"

text \<open>
  \<open>s.replace(old, new)\<close>, and \<open>re.sub\<close> of a pattern without metacharacters: the
  leftmost occurrences, not overlapping, are replaced from left to right.
\<close>

function py_replace :: "pystr \<Rightarrow> pystr \<Rightarrow> pystr \<Rightarrow> pystr" where
  "py_replace old new [] = []"
| "py_replace old new (c # cs) =
     (if old \<noteq> [] \<and> prefix old (c # cs)
      then new @ py_replace old new (drop (length old) (c # cs))
      else c # py_replace old new cs)"
  by pat_completeness auto
termination
  by (relation "measure (\<lambda>(old, new, s). length s)") auto

text \<open>
  \<open>re.sub(r"[\u0000-\u001F]+", " ", x)\<close>: every maximal run of code points below 32
  becomes one space.
\<close>

function sub_ctrl :: "pystr \<Rightarrow> pystr" where
  "sub_ctrl [] = []"
| "sub_ctrl (c # cs) =
     (if c < 32 then 32 # sub_ctrl (dropWhile (\<lambda>d. d < 32) cs) else c # sub_ctrl cs)"
  by pat_completeness auto
termination
  by (relation "measure length") (auto simp: less_Suc_eq_le length_dropWhile_le)

text \<open>
  \<open>x.split()\<close>: the maximal whitespace-free pieces, in order. \<open>cur\<close> is the piece
  being read.
\<close>

fun split_ws :: "pystr \<Rightarrow> pystr \<Rightarrow> pystr list" where
  "split_ws cur [] = (if cur = [] then [] else [cur])"
| "split_ws cur (c # cs) =
     (if isspace c then (if cur = [] then split_ws [] cs else cur # split_ws [] cs)
      else split_ws (cur @ [c]) cs)"

definition py_split :: "pystr \<Rightarrow> pystr list" where
  "py_split s = split_ws [] s"

fun py_join :: "pystr \<Rightarrow> pystr list \<Rightarrow> pystr" where
  "py_join sep [] = []"
| "py_join sep [x] = x"
| "py_join sep (x # y # ys) = x @ sep @ py_join sep (y # ys)"

definition py_strip :: "pystr \<Rightarrow> pystr" where
  "py_strip s = rev (dropWhile isspace (rev (dropWhile isspace s)))"

text \<open>\<open>s.split(sep)\<close> for a separator of one character.\<close>

fun split_char :: "nat \<Rightarrow> pystr \<Rightarrow> pystr list" where
  "split_char sep [] = [[]]"
| "split_char sep (c # cs) =
     (if c = sep then [] # split_char sep cs
      else (case split_char sep cs of
              [] \<Rightarrow> [[c]]
            | p # ps \<Rightarrow> (c # p) # ps))"

section \<open>Cell values and the text normaliser\<close>

text \<open>
  A cell of the raw table is a string, a number or the missing value (NaN). Only
  strings are cleaned; \<open>clean_text\<close> returns every other value as it is.
\<close>

datatype cell = Str pystr | Num int | NaN

definition artifact :: pystr where
  "artifact = ascii ''_x000D_''"

definition clean_str :: "pystr \<Rightarrow> pystr" where
  "clean_str x = py_join [32] (py_split (sub_ctrl (py_replace artifact [32] x)))"

fun clean_text :: "cell \<Rightarrow> cell" where
  "clean_text (Str x) = Str (clean_str x)"
| "clean_text v = v"

section \<open>Parsing clock times and dates\<close>

text \<open>
  The exceptions of Python that the program can meet.
\<close>

datatype pyerror = ValueError | OverflowError | AttributeError | KeyError | TypeError

text \<open>
  \<open>\d\<close> of a \<open>str\<close> pattern matches every Unicode decimal digit (category Nd), and
  \<open>int\<close> converts them. The Nd characters come in runs of ten that start at a zero;
  \<open>digit_zeros\<close> lists the zeros of Unicode 14 (CPython 3.11).
\<close>

definition digit_zeros :: "nat list" where
  "digit_zeros =
     [48, 1632, 1776, 1984, 2406, 2534, 2662, 2790, 2918, 3046, 3174, 3302, 3430, 3558,
      3664, 3792, 3872, 4160, 4240, 6112, 6160, 6470, 6608, 6784, 6800, 6992, 7088, 7232,
      7248, 42528, 43216, 43264, 43472, 43504, 43600, 44016, 65296, 66720, 68912, 69734,
      69872, 69942, 70096, 70384, 70736, 70864, 71248, 71360, 71472, 71904, 72016, 72784,
      73040, 73120, 92768, 92864, 93008, 120782, 120792, 120802, 120812, 120822, 123200,
      123632, 125264, 130032]"

definition digit_val :: "nat \<Rightarrow> nat option" where
  "digit_val c =
     (case filter (\<lambda>z. z \<le> c \<and> c < z + 10) digit_zeros of
        [] \<Rightarrow> None
      | z # _ \<Rightarrow> Some (c - z))"

text \<open>
  The regular expressions that \<open>_strptime\<close> builds from a format are sequences of
  literal characters and groups; a group is an ordered list of alternatives, each a
  sequence of character classes. \<open>re_match\<close> is \<open>re.match\<close> on this fragment: it
  backtracks over the alternatives in their order and returns the groups' texts and the
  unread rest of the first match.
\<close>

datatype cls = Digit | Range nat nat | Lit nat

fun cls_match :: "cls \<Rightarrow> nat \<Rightarrow> bool" where
  "cls_match Digit c = (digit_val c \<noteq> None)"
| "cls_match (Range a b) c = (a \<le> c \<and> c \<le> b)"
| "cls_match (Lit a) c = (c = a)"

fun match_seq :: "cls list \<Rightarrow> pystr \<Rightarrow> (pystr \<times> pystr) option" where
  "match_seq [] s = Some ([], s)"
| "match_seq (k # ks) [] = None"
| "match_seq (k # ks) (c # cs) =
     (if cls_match k c
      then (case match_seq ks cs of None \<Rightarrow> None | Some (m, r) \<Rightarrow> Some (c # m, r))
      else None)"

datatype item = Group "cls list list" | Single cls

fun re_match :: "item list \<Rightarrow> pystr \<Rightarrow> (pystr list \<times> pystr) option"
  and first_alt :: "cls list list \<Rightarrow> item list \<Rightarrow> pystr \<Rightarrow> (pystr list \<times> pystr) option"
where
  "re_match [] s = Some ([], s)"
| "re_match (Single k # its) s =
     (case s of
        [] \<Rightarrow> None
      | c # cs \<Rightarrow> if cls_match k c then re_match its cs else None)"
| "re_match (Group alts # its) s = first_alt alts its s"
| "first_alt [] its s = None"
| "first_alt (a # alts) its s =
     (case match_seq a s of
        None \<Rightarrow> first_alt alts its s
      | Some (m, r) \<Rightarrow>
          (case re_match its r of
             None \<Rightarrow> first_alt alts its s
           | Some (gs, r') \<Rightarrow> Some (m # gs, r')))"

text \<open>\<open>int\<close> of a matched group: decimal digits, after leading whitespace.\<close>

definition py_int :: "pystr \<Rightarrow> int" where
  "py_int s =
     foldl (\<lambda>a c. 10 * a + (case digit_val c of None \<Rightarrow> 0 | Some d \<Rightarrow> int d)) 0
       (dropWhile isspace s)"

text \<open>
  The format \<open>%H:%M\<close> is the pattern
  \<open>(?P<H>2[0-3]|[0-1]\d|\d):(?P<M>[0-5]\d|\d)\<close>; \<open>%Y-%m-%d\<close> is
  \<open>(?P<Y>\d\d\d\d)-(?P<m>1[0-2]|0[1-9]|[1-9])-(?P<d>3[0-1]|[1-2]\d|0[1-9]|[1-9]| [1-9])\<close>.
\<close>

definition re_HM :: "item list" where
  "re_HM =
     [Group [[Lit 50, Range 48 51], [Range 48 49, Digit], [Digit]],
      Single (Lit 58),
      Group [[Range 48 53, Digit], [Digit]]]"

definition re_Ymd :: "item list" where
  "re_Ymd =
     [Group [[Digit, Digit, Digit, Digit]],
      Single (Lit 45),
      Group [[Lit 49, Range 48 50], [Lit 48, Range 49 57], [Range 49 57]],
      Single (Lit 45),
      Group [[Lit 51, Range 48 49], [Range 49 50, Digit], [Lit 48, Range 49 57],
             [Range 49 57], [Lit 32, Range 49 57]]]"

text \<open>
  A clock time \<open>datetime.time(hour, minute)\<close>. \<open>strptime\<close> raises ValueError when the
  text does not match the pattern, and when the match leaves text unread.
\<close>

type_synonym pytime = "int \<times> int"

definition strptime_HM :: "pystr \<Rightarrow> pyerror + pytime" where
  "strptime_HM s =
     (case re_match re_HM s of
        None \<Rightarrow> Inl ValueError
      | Some (gs, rest) \<Rightarrow>
          if rest \<noteq> [] then Inl ValueError
          else (case gs of
                  [h, m] \<Rightarrow> Inr (py_int h, py_int m)
                | _ \<Rightarrow> Inl ValueError))"

text \<open>
  Dates, as \<open>datetime.date\<close> computes them: the proleptic Gregorian calendar, a date
  being its ordinal (0001-01-01 is day 1).
\<close>

definition is_leap :: "int \<Rightarrow> bool" where
  "is_leap y = (y mod 4 = 0 \<and> (y mod 100 \<noteq> 0 \<or> y mod 400 = 0))"

definition days_before_year :: "int \<Rightarrow> int" where
  "days_before_year year =
     (let y = year - 1 in y * 365 + y div 4 - y div 100 + y div 400)"

definition days_in_month_tab :: "int list" where
  "days_in_month_tab = [31, 28, 31, 30, 31, 30, 31, 31, 30, 31, 30, 31]"

definition days_before_month_tab :: "int list" where
  "days_before_month_tab = [0, 31, 59, 90, 120, 151, 181, 212, 243, 273, 304, 334]"

definition days_in_month :: "int \<Rightarrow> int \<Rightarrow> int" where
  "days_in_month year month =
     (if month = 2 \<and> is_leap year then 29 else days_in_month_tab ! nat (month - 1))"

definition days_before_month :: "int \<Rightarrow> int \<Rightarrow> int" where
  "days_before_month year month =
     days_before_month_tab ! nat (month - 1) + (if month > 2 \<and> is_leap year then 1 else 0)"

definition ymd2ord :: "int \<Rightarrow> int \<Rightarrow> int \<Rightarrow> int" where
  "ymd2ord year month day = days_before_year year + days_before_month year month + day"

definition ord2ymd :: "int \<Rightarrow> int \<times> int \<times> int" where
  "ord2ymd n0 =
     (let n = n0 - 1;
          n400 = n div 146097; n = n mod 146097;
          n100 = n div 36524; n = n mod 36524;
          n4 = n div 1461; n = n mod 1461;
          n1 = n div 365; n = n mod 365;
          year = n400 * 400 + 1 + n100 * 100 + n4 * 4 + n1
      in if n1 = 4 \<or> n100 = 4 then (year - 1, 12, 31)
         else
           (let leapyear = (n1 = 3 \<and> (n4 \<noteq> 24 \<or> n100 = 3));
                month = (n + 50) div 32;
                preceding = days_before_month_tab ! nat (month - 1)
                            + (if month > 2 \<and> leapyear then 1 else 0)
            in if preceding > n
               then (let month' = month - 1;
                         preceding' = preceding
                            - (days_in_month_tab ! nat (month' - 1)
                               + (if month' = 2 \<and> leapyear then 1 else 0))
                     in (year, month', n - preceding' + 1))
               else (year, month, n - preceding + 1)))"

text \<open>
  \<open>datetime.strptime(s, "%Y-%m-%d").date()\<close>: the pattern, then the date's own checks
  (the year is at least 1, the day exists in the month).
\<close>

definition strptime_Ymd :: "pystr \<Rightarrow> pyerror + int" where
  "strptime_Ymd s =
     (case re_match re_Ymd s of
        None \<Rightarrow> Inl ValueError
      | Some (gs, rest) \<Rightarrow>
          if rest \<noteq> [] then Inl ValueError
          else (case gs of
                  [y, m, d] \<Rightarrow>
                    (let year = py_int y; month = py_int m; day = py_int d
                     in if year < 1 \<or> day > days_in_month year month then Inl ValueError
                        else Inr (ymd2ord year month day))
                | _ \<Rightarrow> Inl ValueError))"

section \<open>The time-range parser\<close>

text \<open>
  \<open>parse_time_range\<close>: every exception of \<open>strptime\<close> is caught and leaves the
  component absent; the string methods before it raise nothing, so the function has no
  error result. \<open>s.split("-")\<close> never returns an empty list.
\<close>

definition parse_part :: "pystr \<Rightarrow> pytime option" where
  "parse_part p = (case strptime_HM p of Inl e \<Rightarrow> None | Inr t \<Rightarrow> Some t)"

definition time_parts :: "pystr \<Rightarrow> pystr list" where
  "time_parts tstr =
     (let s = py_strip (py_replace (ascii '' IST'') [] (clean_str tstr));
          s = py_replace [8211] [45] s
      in map py_strip (split_char 45 s))"

fun parse_time_range :: "cell \<Rightarrow> pytime option \<times> pytime option" where
  "parse_time_range (Str tstr) =
     (let parts = time_parts tstr;
          start_t = (case parts of [] \<Rightarrow> None | p # _ \<Rightarrow> parse_part p);
          end_t = (if length parts > 1 then parse_part (parts ! 1) else None)
      in (start_t, end_t))"
| "parse_time_range v = (None, None)"

text \<open>
  Two-digit zero-padded decimals, as \<open>%H\<close>, \<open>%M\<close>, \<open>%m\<close> and \<open>%d\<close> print them, and
  the text \<open>HH:MM\<close> of a clock time.
\<close>

definition two_digits :: "int \<Rightarrow> pystr" where
  "two_digits n = [48 + nat (n div 10), 48 + nat (n mod 10)]"

definition hhmm :: "int \<Rightarrow> int \<Rightarrow> pystr" where
  "hhmm h m = two_digits h @ [58] @ two_digits m"

definition valid_time :: "int \<Rightarrow> int \<Rightarrow> pytime option" where
  "valid_time h m = (if h < 24 \<and> m < 60 then Some (h, m) else None)"

section \<open>Instants\<close>

text \<open>
  A \<open>datetime\<close> of the program carries the zone \<open>IST\<close>; it is modelled by its wall
  clock, the microseconds since 0001-01-01 00:00:00, which is how Python orders two
  datetimes of one zone and adds a \<open>timedelta\<close> (also a number of microseconds). The
  type ends with the year 9999: \<open>dt_max\<close> is the first instant after it, and an addition
  that leaves the range raises OverflowError.
\<close>

type_synonym datetime = int

definition us_per_day :: int where
  "us_per_day = 86400000000"

definition dt_max :: int where
  "dt_max = 3652059 * 86400000000"

definition combine :: "int \<Rightarrow> pytime \<Rightarrow> datetime" where
  "combine d t = ((d - 1) * 1440 + fst t * 60 + snd t) * 60000000"

definition dt_add :: "datetime \<Rightarrow> int \<Rightarrow> pyerror + datetime" where
  "dt_add d td = (if 0 \<le> d + td \<and> d + td < dt_max then Inr (d + td) else Inl OverflowError)"

definition minutes :: "int \<Rightarrow> int" where
  "minutes n = n * 60000000"

definition dt_ymd :: "datetime \<Rightarrow> int \<times> int \<times> int" where
  "dt_ymd d = ord2ymd (d div us_per_day + 1)"

definition dt_month :: "datetime \<Rightarrow> int" where
  "dt_month d = fst (snd (dt_ymd d))"

text \<open>\<open>strftime("%a")\<close> in the C locale; \<open>weekday()\<close> is \<open>(toordinal() + 6) % 7\<close>.\<close>

definition day_abbr :: "datetime \<Rightarrow> pystr" where
  "day_abbr d =
     map ascii [''Mon'', ''Tue'', ''Wed'', ''Thu'', ''Fri'', ''Sat'', ''Sun'']
       ! nat ((d div us_per_day + 1 + 6) mod 7)"

definition four_digits :: "int \<Rightarrow> pystr" where
  "four_digits n = two_digits (n div 100) @ two_digits (n mod 100)"

text \<open>
  \<open>strftime("%Y%m%dT%H%M%SZ")\<close>, the year zero-padded to four digits as the library
  documents it.
\<close>

definition strftime_compact :: "datetime \<Rightarrow> pystr" where
  "strftime_compact d =
     (let (y, m, dd) = dt_ymd d;
          secs = (d mod us_per_day) div 1000000
      in four_digits y @ two_digits m @ two_digits dd @ [84]
         @ two_digits (secs div 3600) @ two_digits (secs div 60 mod 60)
         @ two_digits (secs mod 60) @ [90])"

text \<open>
  Modelled from the spec: the zone table behind \<open>ZoneInfo("Asia/Kolkata")\<close> is not in
  the repository; the spec fixes the zone as UTC+5:30 with no daylight saving.
  \<open>astimezone(UTC)\<close> subtracts the offset, and raises OverflowError below year 1.
\<close>

definition ist_offset :: int where
  "ist_offset = minutes 330"

definition astimezone_utc :: "datetime \<Rightarrow> pyerror + datetime" where
  "astimezone_utc d = dt_add d (- ist_offset)"

section \<open>Tables\<close>

text \<open>
  A row of the raw table is the list of its cells by column name, and \<open>columns\<close> is
  \<open>df.columns\<close>. \<open>get\<close> is \<open>row.get(key, default)\<close>, \<open>py_str\<close> is \<open>str\<close> (and the
  formatting of a value in an f-string); of the numbers only the integers are modelled.
\<close>

type_synonym row = "(pystr \<times> cell) list"

record table =
  columns :: "pystr list"
  rows :: "row list"

definition get :: "row \<Rightarrow> pystr \<Rightarrow> cell \<Rightarrow> cell" where
  "get r k dflt = (case map_of r k of None \<Rightarrow> dflt | Some v \<Rightarrow> v)"

fun decimal :: "nat \<Rightarrow> pystr" where
  "decimal n = (if n < 10 then [48 + n] else decimal (n div 10) @ [48 + n mod 10])"

fun py_str :: "cell \<Rightarrow> pystr" where
  "py_str (Str s) = s"
| "py_str (Num n) = (if n < 0 then 45 # decimal (nat (- n)) else decimal (nat n))"
| "py_str NaN = ascii ''nan''"

text \<open>
  The value of a cell of the columns \<open>Start (IST)\<close> and \<open>End (IST)\<close>. The program
  collects a datetime or \<open>None\<close> for every row; pandas stores a list that holds at
  least one datetime as a datetime column, in which \<open>None\<close> has become \<open>NaT\<close>, and a
  list of \<open>None\<close> only (or an empty one) as a column of objects.
\<close>

datatype inst = DT datetime | NaT | PyNone

record erow =
  cells :: row
  start_ist :: inst
  end_ist :: inst

record etable =
  ecolumns :: "pystr list"
  erows :: "erow list"

definition to_column :: "datetime option list \<Rightarrow> inst list" where
  "to_column xs =
     (if list_ex (\<lambda>x. x \<noteq> None) xs
      then map (\<lambda>x. case x of None \<Rightarrow> NaT | Some d \<Rightarrow> DT d) xs
      else map (\<lambda>x. PyNone) xs)"

definition is_DT :: "inst \<Rightarrow> bool" where
  "is_DT v = (case v of DT d \<Rightarrow> True | _ \<Rightarrow> False)"

section \<open>The schedule enricher\<close>

definition clean_row :: "row \<Rightarrow> row" where
  "clean_row r = map (\<lambda>(k, v). (k, clean_text v)) r"

text \<open>
  The body of the loop over the rows: the date, the two clock times, and the two
  datetimes. A \<open>date\<close> and a \<open>time\<close> are always true in a condition. The default end is
  the start plus thirty minutes, an addition that can raise.
\<close>

definition parse_date :: "pystr \<Rightarrow> int option" where
  "parse_date s = (case strptime_Ymd s of Inl e \<Rightarrow> None | Inr d \<Rightarrow> Some d)"

definition date_str :: "row \<Rightarrow> pystr" where
  "date_str r = py_strip (py_str (get r (ascii ''Date'') (Str [])))"

definition time_str :: "row \<Rightarrow> pystr" where
  "time_str r = py_strip (py_str (get r (ascii ''Time'') (Str [])))"

definition row_instants :: "row \<Rightarrow> pyerror + (datetime option \<times> datetime option)" where
  "row_instants r =
     (let d = parse_date (date_str r);
          (stime, etime) = parse_time_range (Str (time_str r));
          start_dt = (case (d, stime) of
                        (Some d', Some t) \<Rightarrow> Some (combine d' t)
                      | _ \<Rightarrow> None)
      in case (d, etime) of
           (Some d', Some t) \<Rightarrow> Inr (start_dt, Some (combine d' t))
         | _ \<Rightarrow>
           (case start_dt of
              None \<Rightarrow> Inr (None, None)
            | Some s \<Rightarrow>
                (case dt_add s (minutes 30) of
                   Inl e \<Rightarrow> Inl e
                 | Inr e' \<Rightarrow> Inr (Some s, Some e'))))"

fun all_instants :: "row list \<Rightarrow> pyerror + (datetime option \<times> datetime option) list" where
  "all_instants [] = Inr []"
| "all_instants (r # rs) =
     (case row_instants r of
        Inl e \<Rightarrow> Inl e
      | Inr p \<Rightarrow>
          (case all_instants rs of
             Inl e \<Rightarrow> Inl e
           | Inr ps \<Rightarrow> Inr (p # ps)))"

text \<open>
  \<open>df["Start (IST)"].dt.month\<close> and \<open>.dt.strftime("%a")\<close>, one value per row: missing
  where the start is \<open>NaT\<close>. The accessor \<open>.dt\<close> exists on a datetime column only.
\<close>

definition month_cell :: "inst \<Rightarrow> cell" where
  "month_cell v = (case v of DT d \<Rightarrow> Num (dt_month d) | _ \<Rightarrow> NaN)"

definition day_cell :: "inst \<Rightarrow> cell" where
  "day_cell v = (case v of DT d \<Rightarrow> Str (day_abbr d) | _ \<Rightarrow> NaN)"

definition build_row :: "bool \<Rightarrow> bool \<Rightarrow> row \<times> inst \<times> inst \<Rightarrow> erow" where
  "build_row has_month has_day x =
     (case x of (r, s, e) \<Rightarrow>
        \<lparr>cells = r @ (if has_month then [] else [(ascii ''Month #'', month_cell s)])
                   @ (if has_day then [] else [(ascii ''Day'', day_cell s)]),
         start_ist = s, end_ist = e\<rparr>)"

text \<open>
  \<open>df.sort_values(["Start (IST)", "Week"])\<close>: a stable sort on the two keys, each with
  its missing values last. A missing \<open>Week\<close> column raises KeyError; a \<open>Week\<close> column
  that mixes strings and numbers cannot be ordered and raises TypeError. Strings are
  ordered by code points, as lists are here.
\<close>

definition start_key :: "inst \<Rightarrow> nat \<times> int" where
  "start_key v = (case v of DT d \<Rightarrow> (0, d) | _ \<Rightarrow> (1, 0))"

definition week_key :: "cell \<Rightarrow> nat \<times> int \<times> pystr" where
  "week_key v = (case v of Str s \<Rightarrow> (0, 0, s) | Num n \<Rightarrow> (0, n, []) | NaN \<Rightarrow> (1, 0, []))"

definition week :: "erow \<Rightarrow> cell" where
  "week r = get (cells r) (ascii ''Week'') NaN"

definition row_key :: "erow \<Rightarrow> (nat \<times> int) \<times> (nat \<times> int \<times> pystr)" where
  "row_key r = (start_key (start_ist r), week_key (week r))"

definition is_Str :: "cell \<Rightarrow> bool" where
  "is_Str v = (case v of Str s \<Rightarrow> True | _ \<Rightarrow> False)"

definition is_Num :: "cell \<Rightarrow> bool" where
  "is_Num v = (case v of Num n \<Rightarrow> True | _ \<Rightarrow> False)"

definition mixed_weeks :: "erow list \<Rightarrow> bool" where
  "mixed_weeks rs = (list_ex (\<lambda>r. is_Str (week r)) rs \<and> list_ex (\<lambda>r. is_Num (week r)) rs)"

definition sort_rows :: "pystr list \<Rightarrow> erow list \<Rightarrow> pyerror + erow list" where
  "sort_rows cols rs =
     (if ascii ''Week'' \<notin> set cols then Inl KeyError
      else if mixed_weeks rs then Inl TypeError
      else Inr (sort_key row_key rs))"

definition has_col :: "table \<Rightarrow> string \<Rightarrow> bool" where
  "has_col df k = (ascii k \<in> set (columns df))"

definition out_columns :: "table \<Rightarrow> pystr list" where
  "out_columns df =
     columns df
     @ (if has_col df ''Month #'' then [] else [ascii ''Month #''])
     @ (if has_col df ''Day'' then [] else [ascii ''Day''])"

definition assemble :: "table \<Rightarrow> (datetime option \<times> datetime option) list \<Rightarrow> erow list" where
  "assemble df ps =
     map (build_row (has_col df ''Month #'') (has_col df ''Day''))
       (zip (map clean_row (rows df))
            (zip (to_column (map fst ps)) (to_column (map snd ps))))"

definition enrich_schedule :: "table \<Rightarrow> pyerror + etable" where
  "enrich_schedule df =
     (case all_instants (map clean_row (rows df)) of
        Inl e \<Rightarrow> Inl e
      | Inr ps \<Rightarrow>
          if (\<not> has_col df ''Month #'' \<or> \<not> has_col df ''Day'')
             \<and> \<not> list_ex is_DT (to_column (map fst ps))
          then Inl AttributeError
          else (case sort_rows (out_columns df) (assemble df ps) of
                  Inl e \<Rightarrow> Inl e
                | Inr sorted_rows \<Rightarrow>
                    Inr \<lparr>ecolumns = out_columns df, erows = sorted_rows\<rparr>))"

section \<open>The upcoming-window filter\<close>



section \<open>The calendar export encoder\<close>

text \<open>
  \<open>isinstance(v, datetime)\<close>: pandas declares \<open>NaT\<close> as a subclass of \<open>datetime\<close>, so
  only \<open>None\<close> fails the test. \<open>NaT.astimezone\<close> raises ValueError, as every datetime
  method does that \<open>NaT\<close> cannot answer.
\<close>

definition is_datetime :: "inst \<Rightarrow> bool" where
  "is_datetime v = (v \<noteq> PyNone)"

definition utc_stamp :: "inst \<Rightarrow> pyerror + pystr" where
  "utc_stamp v =
     (case v of
        DT d \<Rightarrow> (case astimezone_utc d of Inl e \<Rightarrow> Inl e | Inr u \<Rightarrow> Inr (strftime_compact u))
      | NaT \<Rightarrow> Inl ValueError
      | PyNone \<Rightarrow> Inl AttributeError)"

definition fget :: "erow \<Rightarrow> string \<Rightarrow> string \<Rightarrow> pystr" where
  "fget r k dflt = py_str (get (cells r) (ascii k) (Str (ascii dflt)))"

definition uid_line :: "pystr \<Rightarrow> erow \<Rightarrow> pystr" where
  "uid_line dtstart_utc r =
     ascii ''UID:'' @ dtstart_utc @ [45] @ fget r ''Week'' ''W'' @ ascii ''-coffee-connect@atul''"

definition description :: "erow \<Rightarrow> pystr" where
  "description r =
     ascii ''Manager: '' @ fget r ''Manager'' ''Atul Anand'' @ [10]
     @ ascii ''Participants: '' @ fget r ''Participants (4)'' [] @ [10]
     @ ascii ''Focus: '' @ fget r ''Location Focus'' [] @ [10]
     @ ascii ''Mode: '' @ fget r ''Mode of Connect'' []"

definition event_lines :: "erow \<Rightarrow> pystr \<Rightarrow> pystr \<Rightarrow> pystr list" where
  "event_lines r dtstart_utc dtend_utc =
     [ascii ''BEGIN:VEVENT'',
      uid_line dtstart_utc r,
      ascii ''DTSTAMP:'' @ dtstart_utc,
      ascii ''DTSTART:'' @ dtstart_utc,
      ascii ''DTEND:'' @ dtend_utc,
      ascii ''SUMMARY:Coffee & Connect '' @ [8212, 32] @ fget r ''Week'' [],
      ascii ''DESCRIPTION:'' @ description r,
      ascii ''LOCATION:'' @ fget r ''Location Focus'' [],
      ascii ''END:VEVENT'']"

definition calendar_header :: "pystr \<Rightarrow> pystr list" where
  "calendar_header cal_name =
     [ascii ''BEGIN:VCALENDAR'',
      ascii ''VERSION:2.0'',
      ascii ''PRODID:-//CoffeeConnect//Schedule//EN'',
      ascii ''X-WR-CALNAME:'' @ cal_name]"

fun ics_events :: "erow list \<Rightarrow> pyerror + pystr list" where
  "ics_events [] = Inr []"
| "ics_events (r # rs) =
     (if \<not> is_datetime (start_ist r) \<or> \<not> is_datetime (end_ist r) then ics_events rs
      else (case utc_stamp (start_ist r) of
              Inl e \<Rightarrow> Inl e
            | Inr dtstart_utc \<Rightarrow>
                (case utc_stamp (end_ist r) of
                   Inl e \<Rightarrow> Inl e
                 | Inr dtend_utc \<Rightarrow>
                     (case ics_events rs of
                        Inl e \<Rightarrow> Inl e
                      | Inr ls \<Rightarrow> Inr (event_lines r dtstart_utc dtend_utc @ ls)))))"

definition ics_from_rows :: "etable \<Rightarrow> pystr \<Rightarrow> pyerror + pystr" where
  "ics_from_rows df cal_name =
     (case ics_events (erows df) of
        Inl e \<Rightarrow> Inl e
      | Inr ls \<Rightarrow>
          Inr (py_join [13, 10] (calendar_header cal_name @ ls @ [ascii ''END:VCALENDAR''])))"

section \<open>Notions used to state the claims\<close>



text \<open>The raw fields under an enriched table: its columns and cells, without the instants.\<close>

definition raw_of :: "etable \<Rightarrow> table" where
  "raw_of t = \<lparr>columns = ecolumns t, rows = map cells (erows t)\<rparr>"

text \<open>The clock time of a parsed time, in minutes, to compare two times of one date.\<close>

definition clock :: "pytime \<Rightarrow> int" where
  "clock t = fst t * 60 + snd t"

text \<open>
  The clock texts, in the spec's words: one or two digits of an hour from 0 to 23, a
  colon, one or two digits of a minute from 0 to 59. The first of two digits is an ASCII
  digit; every other digit may be any Unicode decimal digit, as \<open>\d\<close> matches them.
  \<open>clock_text\<close> reads a text at its first colon.
\<close>

fun hour_text :: "pystr \<Rightarrow> int option" where
  "hour_text [a] = map_option int (digit_val a)"
| "hour_text [a, b] =
     (if a = 50 \<and> 48 \<le> b \<and> b \<le> 51 then Some (20 + (int b - 48))
      else if 48 \<le> a \<and> a \<le> 49
      then map_option (\<lambda>d. 10 * (int a - 48) + int d) (digit_val b)
      else None)"
| "hour_text p = None"

fun minute_text :: "pystr \<Rightarrow> int option" where
  "minute_text [a] = map_option int (digit_val a)"
| "minute_text [a, b] =
     (if 48 \<le> a \<and> a \<le> 53
      then map_option (\<lambda>d. 10 * (int a - 48) + int d) (digit_val b)
      else None)"
| "minute_text p = None"

definition clock_text :: "pystr \<Rightarrow> pytime option" where
  "clock_text p =
     (case dropWhile (\<lambda>c. c \<noteq> 58) p of
        [] \<Rightarrow> None
      | c # ms \<Rightarrow>
          (case (hour_text (takeWhile (\<lambda>c. c \<noteq> 58) p), minute_text ms) of
             (Some h, Some m) \<Rightarrow> Some (h, m)
           | _ \<Rightarrow> None))"

text \<open>
  The inputs on which the parser's normalisation is stated: tokens are made of
  \<open>token_char\<close>s (no whitespace, no control character, no hyphen, en-dash, underscore
  or \<open>I\<close>), and the gaps between them of \<open>blank\<close> characters (whitespace and control
  characters).
\<close>

definition blank :: "nat \<Rightarrow> bool" where
  "blank c = (isspace c \<or> c < 32)"

definition token_char :: "nat \<Rightarrow> bool" where
  "token_char c = (32 \<le> c \<and> \<not> isspace c \<and> c \<noteq> 45 \<and> c \<noteq> 8211 \<and> c \<noteq> 95 \<and> c \<noteq> 73)"

text \<open>
  Two notions of the proofs: the minute group of the pattern \<open>%H:%M\<close> on a text, and
  the result of \<open>strptime\<close> once the hour is read.
\<close>

definition minute_of :: "pystr \<Rightarrow> (pystr \<times> pystr) option" where
  "minute_of ms =
     (case first_alt [[Range 48 53, Digit], [Digit]] [] ms of
        None \<Rightarrow> None
      | Some (gs, rest) \<Rightarrow> (case gs of [m] \<Rightarrow> Some (m, rest) | _ \<Rightarrow> None))"

definition hm_result :: "pystr \<Rightarrow> pystr \<Rightarrow> pyerror + pytime" where
  "hm_result h ms =
     (case minute_of ms of
        None \<Rightarrow> Inl ValueError
      | Some (m, rest) \<Rightarrow> if rest \<noteq> [] then Inl ValueError else Inr (py_int h, py_int m))"

section \<open>An example table\<close>

text \<open>
  Four rows in the shape of the spec's scenarios: a time range written with an en-dash
  and the zone label, a start time alone, a date that does not parse, and a range whose
  end is earlier than its start. \<open>example_built\<close> is the table before the final sort,
  \<open>example_enriched\<close> the table the enricher returns.
\<close>

definition mk_row :: "string \<Rightarrow> string \<Rightarrow> pystr \<Rightarrow> row" where
  "mk_row w d t = [(ascii ''Week'', Str (ascii w)), (ascii ''Date'', Str (ascii d)), (ascii ''Time'', Str t)]"

definition example_raw :: table where
  "example_raw =
     \<lparr>columns = map ascii [''Week'', ''Date'', ''Time''],
      rows = [mk_row ''W2'' ''2026-03-10'' (ascii ''15:30'' @ 8211 # ascii ''16:00 IST''),
              mk_row ''W1'' ''2026-03-10'' (ascii ''15:30 IST''),
              mk_row ''W0'' ''n/a'' (ascii ''15:30''),
              mk_row ''W3'' ''2026-03-09'' (ascii ''16:00-15:30'')]\<rparr>"

definition ex_cells :: "string \<Rightarrow> string \<Rightarrow> pystr \<Rightarrow> cell \<Rightarrow> cell \<Rightarrow> row" where
  "ex_cells w d t m dn = mk_row w d t @ [(ascii ''Month #'', m), (ascii ''Day'', dn)]"

definition example_enriched :: etable where
  "example_enriched =
     \<lparr>ecolumns = map ascii [''Week'', ''Date'', ''Time'', ''Month #'', ''Day''],
      erows =
        [\<lparr>cells = ex_cells ''W3'' ''2026-03-09'' (ascii ''16:00-15:30'') (Num 3) (Str (ascii ''Mon'')),
          start_ist = DT (combine 739684 (16, 0)), end_ist = DT (combine 739684 (15, 30))\<rparr>,
         \<lparr>cells = ex_cells ''W1'' ''2026-03-10'' (ascii ''15:30 IST'') (Num 3) (Str (ascii ''Tue'')),
          start_ist = DT (combine 739685 (15, 30)), end_ist = DT (combine 739685 (16, 0))\<rparr>,
         \<lparr>cells = ex_cells ''W2'' ''2026-03-10'' (ascii ''15:30'' @ 8211 # ascii ''16:00 IST'')
                    (Num 3) (Str (ascii ''Tue'')),
          start_ist = DT (combine 739685 (15, 30)), end_ist = DT (combine 739685 (16, 0))\<rparr>,
         \<lparr>cells = ex_cells ''W0'' ''n/a'' (ascii ''15:30'') NaN NaN,
          start_ist = NaT, end_ist = NaT\<rparr>]\<rparr>"

definition example_built :: "erow list" where
  "example_built =
     [\<lparr>cells = ex_cells ''W2'' ''2026-03-10'' (ascii ''15:30'' @ 8211 # ascii ''16:00 IST'')
                (Num 3) (Str (ascii ''Tue'')),
       start_ist = DT (combine 739685 (15, 30)), end_ist = DT (combine 739685 (16, 0))\<rparr>,
      \<lparr>cells = ex_cells ''W1'' ''2026-03-10'' (ascii ''15:30 IST'') (Num 3) (Str (ascii ''Tue'')),
       start_ist = DT (combine 739685 (15, 30)), end_ist = DT (combine 739685 (16, 0))\<rparr>,
      \<lparr>cells = ex_cells ''W0'' ''n/a'' (ascii ''15:30'') NaN NaN,
       start_ist = NaT, end_ist = NaT\<rparr>,
      \<lparr>cells = ex_cells ''W3'' ''2026-03-09'' (ascii ''16:00-15:30'') (Num 3) (Str (ascii ''Mon'')),
       start_ist = DT (combine 739684 (16, 0)), end_ist = DT (combine 739684 (15, 30))\<rparr>]"


section \<open>Facts about the string operations\<close>

lemma artifact_code: "artifact = [95, 120, 48, 48, 48, 68, 95]"
  by (simp add: artifact_def ascii_def)

lemma prefix_replace_space:
  "32 \<notin> set p \<Longrightarrow> prefix p (py_replace old [32] s) \<Longrightarrow> prefix p s"
proof (induction s arbitrary: p)
  case Nil
  then show ?case by simp
next
  case (Cons c cs)
  show ?case
  proof (cases "old \<noteq> [] \<and> prefix old (c # cs)")
    case True
    with Cons.prems have "prefix p (32 # py_replace old [32] (drop (length old) (c # cs)))"
      by simp
    with Cons.prems(1) have "p = []"
      by (cases p) auto
    then show ?thesis by simp
  next
    case False
    with Cons.prems have pre: "prefix p (c # py_replace old [32] cs)"
      by auto
    show ?thesis
    proof (cases p)
      case Nil
      then show ?thesis by simp
    next
      case (Cons a p')
      with pre Cons.prems(1) Cons.IH [of p'] show ?thesis
        by auto
    qed
  qed
qed

lemma no_sublist_replace:
  "old \<noteq> [] \<Longrightarrow> 32 \<notin> set old \<Longrightarrow> \<not> sublist old (py_replace old [32] s)"
proof (induction old "[32::nat]" s rule: py_replace.induct)
  case (1 old)
  then show ?case by simp
next
  case (2 old c cs)
  show ?case
  proof (cases "prefix old (c # cs)")
    case True
    have "\<not> prefix old (32 # py_replace old [32] (drop (length old) (c # cs)))"
      using "2.prems" by (cases old) auto
    with True 2 show ?thesis
      by (simp add: sublist_Cons_right)
  next
    case False
    have "\<not> prefix old (c # py_replace old [32] cs)"
    proof
      assume pre: "prefix old (c # py_replace old [32] cs)"
      obtain a old' where old: "old = a # old'"
        using "2.prems"(1) by (cases old) auto
      with pre have "a = c" and "prefix old' (py_replace old [32] cs)"
        by auto
      moreover have "32 \<notin> set old'"
        using "2.prems"(2) old by simp
      ultimately have "prefix old' cs"
        using prefix_replace_space by blast
      with old \<open>a = c\<close> False show False by simp
    qed
    with False 2 show ?thesis
      by (simp add: sublist_Cons_right)
  qed
qed

lemma sub_ctrl_ge: "c \<in> set (sub_ctrl s) \<Longrightarrow> 32 \<le> c"
  by (induction s rule: sub_ctrl.induct) (auto split: if_splits)

lemma prefix_sub_ctrl:
  "32 \<notin> set p \<Longrightarrow> prefix p (sub_ctrl s) \<Longrightarrow> prefix p s"
proof (induction s arbitrary: p)
  case Nil
  then show ?case by simp
next
  case (Cons c cs)
  then show ?case
    by (cases p) (auto split: if_splits)
qed

lemma sublist_sub_ctrl:
  "32 \<notin> set p \<Longrightarrow> sublist p (sub_ctrl s) \<Longrightarrow> sublist p s"
proof (induction s rule: sub_ctrl.induct)
  case 1
  then show ?case by simp
next
  case (2 c cs)
  show ?case
  proof (cases "c < 32")
    case True
    with "2.prems" have
      "prefix p (32 # sub_ctrl (dropWhile (\<lambda>d. d < 32) cs))
       \<or> sublist p (sub_ctrl (dropWhile (\<lambda>d. d < 32) cs))"
      by (simp add: sublist_Cons_right)
    then show ?thesis
    proof
      assume "prefix p (32 # sub_ctrl (dropWhile (\<lambda>d. d < 32) cs))"
      with "2.prems"(1) have "p = []" by (cases p) auto
      then show ?thesis by simp
    next
      assume "sublist p (sub_ctrl (dropWhile (\<lambda>d. d < 32) cs))"
      with "2.IH"(1) True "2.prems"(1) have "sublist p (dropWhile (\<lambda>d. d < 32) cs)"
        by simp
      then have "sublist p cs"
        using sublist_dropWhile sublist_order.order_trans by blast
      then show ?thesis by (simp add: sublist_Cons_right)
    qed
  next
    case False
    with "2.prems" have "prefix p (c # sub_ctrl cs) \<or> sublist p (sub_ctrl cs)"
      by (simp add: sublist_Cons_right)
    then show ?thesis
    proof
      assume pre: "prefix p (c # sub_ctrl cs)"
      have "prefix p (c # cs)"
        using prefix_sub_ctrl [of p "c # cs"] "2.prems"(1) pre False by simp
      then show ?thesis by (simp add: sublist_Cons_right)
    next
      assume "sublist p (sub_ctrl cs)"
      with "2.IH"(2) False "2.prems"(1) show ?thesis
        by (simp add: sublist_Cons_right)
    qed
  qed
qed

lemma split_ws_sublist: "w \<in> set (split_ws cur s) \<Longrightarrow> sublist w (cur @ s)"
proof (induction s arbitrary: cur)
  case Nil
  then show ?case by (auto split: if_splits)
next
  case (Cons c cs)
  show ?case
  proof (cases "isspace c")
    case True
    with Cons.prems have "w = cur \<or> w \<in> set (split_ws [] cs)"
      by (auto split: if_splits)
    then show ?thesis
    proof
      assume "w = cur"
      then show ?thesis by simp
    next
      assume "w \<in> set (split_ws [] cs)"
      then have "sublist w cs" using Cons.IH [of "[]"] by simp
      then obtain ps ss where "cs = ps @ w @ ss" by (auto simp: sublist_def)
      then have "cur @ c # cs = (cur @ c # ps) @ w @ ss" by simp
      then show ?thesis unfolding sublist_def by blast
    qed
  next
    case False
    with Cons.prems Cons.IH [of "cur @ [c]"] show ?thesis by simp
  qed
qed

lemma split_ws_words:
  "w \<in> set (split_ws cur s) \<Longrightarrow> \<forall>c\<in>set cur. \<not> isspace c
   \<Longrightarrow> w \<noteq> [] \<and> (\<forall>c\<in>set w. \<not> isspace c)"
proof (induction s arbitrary: cur)
  case Nil
  then show ?case by (auto split: if_splits)
next
  case (Cons c cs)
  show ?case
  proof (cases "isspace c")
    case True
    with Cons.prems(1) have "(w = cur \<and> cur \<noteq> []) \<or> w \<in> set (split_ws [] cs)"
      by (auto split: if_splits)
    then show ?thesis
      using Cons.prems(2) Cons.IH [of "[]"] by auto
  next
    case False
    with Cons.prems Cons.IH [of "cur @ [c]"] show ?thesis by auto
  qed
qed

lemma isspace_32: "isspace 32"
  by (simp add: isspace_def)

lemma isspace_ge: "isspace c \<Longrightarrow> 32 \<le> c \<Longrightarrow> c = 32 \<or> 133 \<le> c"
  by (auto simp: isspace_def)

lemma set_py_join: "set (py_join sep ws) \<subseteq> set sep \<union> \<Union> (set ` set ws)"
  by (induction sep ws rule: py_join.induct) auto

lemma sublist_py_join:
  "32 \<notin> set p \<Longrightarrow> p \<noteq> [] \<Longrightarrow> sublist p (py_join [32] ws) \<Longrightarrow> \<exists>w\<in>set ws. sublist p w"
proof (induction "[32::nat]" ws rule: py_join.induct)
  case 1
  then show ?case by simp
next
  case (2 x)
  then show ?case by simp
next
  case (3 x y ys)
  let ?J = "py_join [32] (y # ys)"
  from "3.prems"(3) have "sublist p (x @ 32 # ?J)" by simp
  then consider "sublist p x" | "sublist p (32 # ?J)"
    | p1 p2 where "p = p1 @ p2" "suffix p1 x" "prefix p2 (32 # ?J)"
    unfolding sublist_append by blast
  then show ?case
  proof cases
    case 1
    then show ?thesis by auto
  next
    case 2
    then have "prefix p (32 # ?J) \<or> sublist p ?J" by (simp add: sublist_Cons_right)
    moreover have "\<not> prefix p (32 # ?J)"
      using "3.prems"(1,2) by (cases p) auto
    ultimately have "sublist p ?J" by blast
    with "3.hyps" "3.prems"(1,2) show ?thesis by auto
  next
    case 3
    have "p2 = []"
      using 3(1,3) "3.prems"(1) by (cases p2) auto
    with 3 have "suffix p x" by simp
    then have "sublist p x" by (metis suffix_def sublist_append_leftI)
    then show ?thesis by auto
  qed
qed

lemma py_join_Cons: "py_join sep (w # ws) = (if ws = [] then w else w @ sep @ py_join sep ws)"
  by (cases ws) auto

lemma py_join_ends:
  assumes "ws \<noteq> []" and "\<forall>w\<in>set ws. w \<noteq> [] \<and> 32 \<notin> set w"
  shows "py_join [32] ws \<noteq> [] \<and> hd (py_join [32] ws) \<noteq> 32 \<and> last (py_join [32] ws) \<noteq> 32"
  using assms
proof (induction ws)
  case Nil
  then show ?case by simp
next
  case (Cons w ws)
  from Cons.prems have w: "w \<noteq> []" "32 \<notin> set w" by auto
  then have hd: "hd w \<noteq> 32" and lst: "last w \<noteq> 32"
    by (metis hd_in_set, metis last_in_set)
  show ?case
  proof (cases "ws = []")
    case True
    with w hd lst show ?thesis by simp
  next
    case False
    with Cons have "py_join [32] ws \<noteq> [] \<and> last (py_join [32] ws) \<noteq> 32" by simp
    with False w hd show ?thesis by (simp add: py_join_Cons)
  qed
qed

lemma py_join_no_double:
  assumes "\<forall>w\<in>set ws. w \<noteq> [] \<and> 32 \<notin> set w"
  shows "\<not> sublist [32, 32] (py_join [32] ws)"
  using assms
proof (induction ws)
  case Nil
  then show ?case by simp
next
  case (Cons w ws)
  from Cons.prems have w: "w \<noteq> []" "32 \<notin> set w" by auto
  show ?case
  proof (cases "ws = []")
    case True
    have "\<not> sublist [32, 32] w"
      using w(2) set_mono_sublist [of "[32, 32]" w] by auto
    with True show ?thesis by simp
  next
    case False
    let ?J = "py_join [32] ws"
    from False Cons.prems have J: "?J \<noteq> []" "hd ?J \<noteq> 32"
      using py_join_ends [of ws] by auto
    have IH: "\<not> sublist [32, 32] ?J" using Cons by simp
    have "\<not> sublist [32, 32] (w @ 32 # ?J)"
    proof
      assume "sublist [32, 32] (w @ 32 # ?J)"
      then consider "sublist [32, 32] w" | "sublist [32, 32] (32 # ?J)"
        | p1 p2 where "[32, 32] = p1 @ p2" "suffix p1 w" "prefix p2 (32 # ?J)"
        unfolding sublist_append by blast
      then show False
      proof cases
        case 1
        then show False using w(2) set_mono_sublist [of "[32, 32]" w] by auto
      next
        case 2
        then have "prefix [32, 32] (32 # ?J) \<or> sublist [32, 32] ?J"
          by (simp add: sublist_Cons_right)
        with IH have "prefix [32] ?J" by simp
        with J show False by (cases ?J) auto
      next
        case 3
        have "p1 = []"
        proof (rule ccontr)
          assume "p1 \<noteq> []"
          then have "hd p1 = 32" using 3(1) by (cases p1) auto
          moreover have "set p1 \<subseteq> set w" using 3(2) by (auto simp: suffix_def)
          ultimately show False using w(2) \<open>p1 \<noteq> []\<close> hd_in_set by fastforce
        qed
        with 3 have "prefix [32, 32] (32 # ?J)" by simp
        then have "prefix [32] ?J" by simp
        with J show False by (cases ?J) auto
      qed
    qed
    with False show ?thesis by (simp add: py_join_Cons)
  qed
qed

lemma split_ws_join:
  assumes "\<forall>w\<in>set ws. w \<noteq> [] \<and> (\<forall>c\<in>set w. \<not> isspace c)" and "\<forall>c\<in>set cur. \<not> isspace c"
  shows "split_ws cur (py_join [32] ws) =
         (if ws = [] then (if cur = [] then [] else [cur]) else (cur @ hd ws) # tl ws)"
  using assms
proof (induction ws arbitrary: cur)
  case Nil
  then show ?case by simp
next
  case (Cons w ws)
  have app: "\<And>cur s t. \<forall>c\<in>set s. \<not> isspace c \<Longrightarrow> split_ws cur (s @ t) = split_ws (cur @ s) t"
  proof -
    fix cur :: pystr and s t :: pystr
    assume "\<forall>c\<in>set s. \<not> isspace c"
    then show "split_ws cur (s @ t) = split_ws (cur @ s) t"
      by (induction s arbitrary: cur) auto
  qed
  from Cons.prems have w: "w \<noteq> []" "\<forall>c\<in>set w. \<not> isspace c" by auto
  show ?case
  proof (cases "ws = []")
    case True
    have "split_ws cur (w @ []) = split_ws (cur @ w) []" using app [OF w(2)] .
    with True w show ?thesis by simp
  next
    case False
    have "split_ws cur (w @ 32 # py_join [32] ws) = split_ws (cur @ w) (32 # py_join [32] ws)"
      using app [OF w(2)] .
    also have "\<dots> = (cur @ w) # split_ws [] (py_join [32] ws)"
      using w isspace_32 by simp
    also have "split_ws [] (py_join [32] ws) = hd ws # tl ws"
      using Cons.IH [of "[]"] Cons.prems False by simp
    finally show ?thesis using False by (simp add: py_join_Cons)
  qed
qed

lemma py_split_join:
  "\<forall>w\<in>set ws. w \<noteq> [] \<and> (\<forall>c\<in>set w. \<not> isspace c) \<Longrightarrow> py_split (py_join [32] ws) = ws"
  using split_ws_join [of ws "[]"] by (cases ws) (auto simp: py_split_def)

lemma py_split_words: "w \<in> set (py_split s) \<Longrightarrow> w \<noteq> [] \<and> (\<forall>c\<in>set w. \<not> isspace c)"
  using split_ws_words [of w "[]" s] by (simp add: py_split_def)

lemma py_split_sublist: "w \<in> set (py_split s) \<Longrightarrow> sublist w s"
  using split_ws_sublist [of w "[]" s] by (simp add: py_split_def)

lemma words_no_32: "w \<in> set (py_split s) \<Longrightarrow> w \<noteq> [] \<and> 32 \<notin> set w"
  using py_split_words [of w s] isspace_32 by auto

lemma clean_str_no_artifact: "\<not> sublist artifact (clean_str x)"
proof
  let ?z = "sub_ctrl (py_replace artifact [32] x)"
  assume "sublist artifact (clean_str x)"
  then have "\<exists>w\<in>set (py_split ?z). sublist artifact w"
    unfolding clean_str_def by (rule sublist_py_join [rotated 2]) (simp_all add: artifact_code)
  then obtain w where "w \<in> set (py_split ?z)" "sublist artifact w" by blast
  then have "sublist artifact ?z"
    using py_split_sublist sublist_order.order_trans by blast
  then have "sublist artifact (py_replace artifact [32] x)"
    by (rule sublist_sub_ctrl [rotated]) (simp_all add: artifact_code)
  moreover have "\<not> sublist artifact (py_replace artifact [32] x)"
    by (rule no_sublist_replace) (simp_all add: artifact_code)
  ultimately show False by blast
qed

lemma clean_str_chars:
  assumes "c \<in> set (clean_str x)"
  shows "32 \<le> c \<and> (isspace c \<longrightarrow> c = 32)"
proof -
  let ?z = "sub_ctrl (py_replace artifact [32] x)"
  from assms have "c = 32 \<or> (\<exists>w\<in>set (py_split ?z). c \<in> set w)"
    using set_py_join [of "[32]" "py_split ?z"] by (auto simp: clean_str_def)
  then show ?thesis
  proof
    assume "c = 32"
    then show ?thesis by simp
  next
    assume "\<exists>w\<in>set (py_split ?z). c \<in> set w"
    then obtain w where w: "w \<in> set (py_split ?z)" "c \<in> set w" by blast
    then have "c \<in> set ?z"
      using py_split_sublist [of w ?z] set_mono_sublist by blast
    then have "32 \<le> c" by (rule sub_ctrl_ge)
    moreover have "\<not> isspace c" using w py_split_words by blast
    ultimately show ?thesis by simp
  qed
qed

lemma clean_str_spacing:
  "\<not> sublist [32, 32] (clean_str x) \<and> \<not> prefix [32] (clean_str x) \<and> \<not> suffix [32] (clean_str x)"
proof -
  let ?ws = "py_split (sub_ctrl (py_replace artifact [32] x))"
  have ws: "\<forall>w\<in>set ?ws. w \<noteq> [] \<and> 32 \<notin> set w"
    using words_no_32 by blast
  have a: "\<not> sublist [32, 32] (py_join [32] ?ws)"
    using ws by (rule py_join_no_double)
  have b: "\<not> prefix [32] (py_join [32] ?ws) \<and> \<not> suffix [32] (py_join [32] ?ws)"
  proof (cases "?ws = []")
    case True
    then show ?thesis by simp
  next
    case False
    then have e: "py_join [32] ?ws \<noteq> [] \<and> hd (py_join [32] ?ws) \<noteq> 32
        \<and> last (py_join [32] ?ws) \<noteq> 32"
      using ws by (intro py_join_ends) auto
    have "\<not> prefix [32] (py_join [32] ?ws)"
      using e by (cases "py_join [32] ?ws") auto
    moreover have "\<not> suffix [32] (py_join [32] ?ws)"
      using e by (auto simp: suffix_def)
    ultimately show ?thesis by blast
  qed
  from a b show ?thesis by (simp add: clean_str_def)
qed

lemma clean_str_words:
  "py_split (clean_str x) = py_split (sub_ctrl (py_replace artifact [32] x))"
  unfolding clean_str_def using py_split_words by (intro py_split_join) blast

lemma py_replace_absent: "\<not> sublist old s \<Longrightarrow> py_replace old new s = s"
proof (induction old new s rule: py_replace.induct)
  case (1 old new)
  then show ?case by simp
next
  case (2 old new c cs)
  from "2.prems" have "\<not> prefix old (c # cs)" and "\<not> sublist old cs"
    by (auto simp: sublist_Cons_right)
  with 2 show ?case by simp
qed

lemma sub_ctrl_absent: "\<forall>c\<in>set s. 32 \<le> c \<Longrightarrow> sub_ctrl s = s"
  by (induction s) auto

lemma clean_str_idem: "clean_str (clean_str x) = clean_str x"
proof -
  let ?y = "clean_str x"
  have "py_replace artifact [32] ?y = ?y"
    using clean_str_no_artifact by (rule py_replace_absent)
  moreover have "sub_ctrl ?y = ?y"
    using clean_str_chars by (intro sub_ctrl_absent) blast
  ultimately have "clean_str ?y = py_join [32] (py_split ?y)"
    by (simp add: clean_str_def)
  also have "\<dots> = py_join [32] (py_split (sub_ctrl (py_replace artifact [32] x)))"
    by (simp add: clean_str_words)
  finally show ?thesis by (simp add: clean_str_def)
qed

lemma clean_text_idem: "clean_text (clean_text v) = clean_text v"
  by (cases v) (simp_all add: clean_str_idem)

section \<open>Facts about parsing\<close>

lemma digit_val_ascii: "48 \<le> c \<Longrightarrow> c \<le> 57 \<Longrightarrow> digit_val c = Some (c - 48)"
  by (simp add: digit_val_def digit_zeros_def)

lemma digit_val_low: "c < 48 \<Longrightarrow> digit_val c = None"
  by (simp add: digit_val_def digit_zeros_def)

lemma digit_val_mid: "58 \<le> c \<Longrightarrow> c < 1632 \<Longrightarrow> digit_val c = None"
  by (simp add: digit_val_def digit_zeros_def)

lemma digit_val_colon: "digit_val 58 = None"
  by (simp add: digit_val_mid)

lemma py_int_two: "a < 10 \<Longrightarrow> b < 10 \<Longrightarrow> py_int [48 + a, 48 + b] = int (10 * a + b)"
  by (simp add: py_int_def isspace_def digit_val_ascii)

lemma strptime_HM_digits:
  assumes "a < 10" "b < 10" "c < 10" "d < 10"
  shows "strptime_HM [48 + a, 48 + b, 58, 48 + c, 48 + d] =
         (if (a < 2 \<or> a = 2 \<and> b \<le> 3) \<and> c \<le> 5
          then Inr (int (10 * a + b), int (10 * c + d)) else Inl ValueError)"
proof -
  have dv: "digit_val (48 + a) = Some a" "digit_val (48 + b) = Some b"
    "digit_val (48 + c) = Some c" "digit_val (48 + d) = Some d"
    using assms by (simp_all add: digit_val_ascii)
  have ne: "48 + b \<noteq> 58" "48 + d \<noteq> 58" using assms by simp_all
  have M: "first_alt [[Range 48 53, Digit], [Digit]] [] [48 + c, 48 + d] =
           (if c \<le> 5 then Some ([[48 + c, 48 + d]], []) else Some ([[48 + c]], [48 + d]))"
    by (simp add: dv)
  have H: "re_match re_HM [48 + a, 48 + b, 58, 48 + c, 48 + d] =
           (if a < 2 \<or> a = 2 \<and> b \<le> 3
            then (if c \<le> 5 then Some ([[48 + a, 48 + b], [48 + c, 48 + d]], [])
                  else Some ([[48 + a, 48 + b], [48 + c]], [48 + d]))
            else None)"
    unfolding re_HM_def using assms(1) ne by (auto simp: dv M)
  show ?thesis
    unfolding strptime_HM_def H using assms by (simp add: py_int_two)
qed

lemma two_digit_bounds:
  assumes "0 \<le> (h::int)" "h < 100"
  shows "nat (h div 10) < 10 \<and> nat (h mod 10) < 10
         \<and> h = int (10 * nat (h div 10) + nat (h mod 10))"
proof -
  have a: "0 \<le> h div 10" "h div 10 < 10" using assms by presburger+
  have b: "0 \<le> h mod 10" "h mod 10 < 10" by presburger+
  have c: "h = 10 * (h div 10) + h mod 10" by presburger
  from a b have "nat (h div 10) < 10" "nat (h mod 10) < 10" by linarith+
  moreover have "int (10 * nat (h div 10) + nat (h mod 10)) = 10 * (h div 10) + h mod 10"
    using a b by simp
  ultimately show ?thesis using c by simp
qed

lemma strptime_HM_hhmm:
  assumes "0 \<le> h" "h < 100" "0 \<le> m" "m < 100"
  shows "strptime_HM (hhmm h m) =
         (case valid_time h m of None \<Rightarrow> Inl ValueError | Some t \<Rightarrow> Inr t)"
proof -
  define a b c d where "a = nat (h div 10)" and "b = nat (h mod 10)"
    and "c = nat (m div 10)" and "d = nat (m mod 10)"
  have r: "a < 10" "b < 10" "c < 10" "d < 10"
    using two_digit_bounds [OF assms(1,2)] two_digit_bounds [OF assms(3,4)]
    by (simp_all add: a_def b_def c_def d_def)
  have hm: "h = int (10 * a + b)" "m = int (10 * c + d)"
    using two_digit_bounds [OF assms(1,2)] two_digit_bounds [OF assms(3,4)]
    by (simp_all add: a_def b_def c_def d_def)
  have "hhmm h m = [48 + a, 48 + b, 58, 48 + c, 48 + d]"
    by (simp add: hhmm_def two_digits_def a_def b_def c_def d_def)
  moreover have "(a < 2 \<or> a = 2 \<and> b \<le> 3) \<longleftrightarrow> h < 24" using r hm by auto
  moreover have "c \<le> 5 \<longleftrightarrow> m < 60" using r hm by auto
  ultimately show ?thesis
    using strptime_HM_digits [OF r] hm by (simp add: valid_time_def)
qed

lemma parse_part_hhmm:
  "0 \<le> h \<Longrightarrow> h < 100 \<Longrightarrow> 0 \<le> m \<Longrightarrow> m < 100 \<Longrightarrow> parse_part (hhmm h m) = valid_time h m"
  by (simp add: parse_part_def strptime_HM_hhmm split: option.splits)

lemma hhmm_chars:
  assumes "0 \<le> h" "h < 100" "0 \<le> m" "m < 100"
  shows "hhmm h m \<noteq> [] \<and> (\<forall>c\<in>set (hhmm h m). 48 \<le> c \<and> c \<le> 58)"
proof -
  have gen: "\<forall>x\<in>set [48 + a, 48 + b, 58, 48 + c, 48 + d]. 48 \<le> x \<and> x \<le> 58"
    if "a < 10" "b < 10" "c < 10" "d < 10" for a b c d :: nat
    using that by simp
  have "nat (h div 10) < 10" "nat (h mod 10) < 10" "nat (m div 10) < 10" "nat (m mod 10) < 10"
    using two_digit_bounds [OF assms(1,2)] two_digit_bounds [OF assms(3,4)] by simp_all
  from gen [OF this] show ?thesis by (simp add: hhmm_def two_digits_def)
qed

lemma replace_skip:
  "c0 \<notin> set w \<Longrightarrow> py_replace (c0 # r) new (w @ t) = w @ py_replace (c0 # r) new t"
  by (induction w) auto

lemma replace_none: "c0 \<notin> set w \<Longrightarrow> py_replace (c0 # r) new w = w"
  using replace_skip [of c0 w r new "[]"] by simp

lemma py_strip_id: "w \<noteq> [] \<Longrightarrow> \<not> isspace (hd w) \<Longrightarrow> \<not> isspace (last w) \<Longrightarrow> py_strip w = w"
proof -
  assume w: "w \<noteq> []" "\<not> isspace (hd w)" "\<not> isspace (last w)"
  then have "dropWhile isspace w = w" by (cases w) auto
  moreover have "dropWhile isspace (rev w) = rev w"
    using w by (cases "rev w") (auto simp: last_rev [symmetric] simp del: last_rev)
  ultimately show ?thesis by (simp add: py_strip_def)
qed

lemma py_strip_plain: "w \<noteq> [] \<Longrightarrow> \<forall>c\<in>set w. \<not> isspace c \<Longrightarrow> py_strip w = w"
  by (rule py_strip_id) auto

lemma split_char_skip: "sep \<notin> set a \<Longrightarrow> split_char sep (a @ sep # t) = a # split_char sep t"
  by (induction a) (auto split: list.splits)

lemma split_char_none: "sep \<notin> set a \<Longrightarrow> split_char sep a = [a]"
  by (induction a) (auto split: list.splits)

lemma clean_str_fix:
  assumes "\<forall>w\<in>set ws. w \<noteq> [] \<and> (\<forall>c\<in>set w. \<not> isspace c \<and> 32 \<le> c \<and> c \<noteq> 95)"
  shows "clean_str (py_join [32] ws) = py_join [32] ws"
proof -
  let ?x = "py_join [32] ws"
  have chars: "\<forall>c\<in>set ?x. 32 \<le> c \<and> c \<noteq> 95"
    using assms set_py_join [of "[32]" ws] by fastforce
  have "95 \<in> set artifact" by (simp add: artifact_code)
  then have "\<not> sublist artifact ?x"
    using chars set_mono_sublist [of artifact ?x] by blast
  then have "py_replace artifact [32] ?x = ?x" by (rule py_replace_absent)
  moreover have "sub_ctrl ?x = ?x" using chars by (intro sub_ctrl_absent) blast
  moreover have "py_split ?x = ws" using assms by (intro py_split_join) blast
  ultimately show ?thesis by (simp add: clean_str_def)
qed

lemma ist_code: "ascii '' IST'' = [32, 73, 83, 84]"
  by (simp add: ascii_def)

lemma isspace_plain: "48 \<le> c \<Longrightarrow> c \<le> 58 \<Longrightarrow> \<not> isspace c"
  by (auto simp: isspace_def)

lemma strip_ist:
  assumes "w \<noteq> []" "\<forall>c\<in>set w. \<not> isspace c \<and> 32 \<le> c \<and> c \<noteq> 95"
    and "tz = [] \<or> tz = ascii '' IST''"
  shows "py_strip (py_replace (ascii '' IST'') [] (clean_str (w @ tz))) = w"
proof -
  have n32: "32 \<notin> set w" using assms(2) isspace_32 by auto
  from assms(3) show ?thesis
  proof
    assume tz: "tz = []"
    have "clean_str (py_join [32] [w]) = py_join [32] [w]"
      using assms(1,2) by (intro clean_str_fix) simp
    then have "clean_str (w @ tz) = w" using tz by simp
    moreover have "py_replace (ascii '' IST'') [] w = w"
      unfolding ist_code using n32 by (rule replace_none)
    moreover have "py_strip w = w" using assms(1,2) by (intro py_strip_plain) auto
    ultimately show ?thesis by simp
  next
    assume tz: "tz = ascii '' IST''"
    have "clean_str (py_join [32] [w, [73, 83, 84]]) = py_join [32] [w, [73, 83, 84]]"
      using assms(1,2) by (intro clean_str_fix) (auto simp: isspace_def)
    then have "clean_str (w @ tz) = w @ [32, 73, 83, 84]" using tz by (simp add: ist_code)
    moreover have "py_replace [32, 73, 83, 84] [] (w @ [32, 73, 83, 84]) = w"
      using replace_skip [OF n32, of "[73, 83, 84]" "[]" "[32, 73, 83, 84]"] by simp
    moreover have "py_strip w = w" using assms(1,2) by (intro py_strip_plain) auto
    ultimately show ?thesis by (simp add: ist_code)
  qed
qed

lemma time_parts_range:
  assumes a: "a \<noteq> []" "\<forall>c\<in>set a. 48 \<le> c \<and> c \<le> 58"
    and b: "b \<noteq> []" "\<forall>c\<in>set b. 48 \<le> c \<and> c \<le> 58"
    and sep: "sep = 45 \<or> sep = 8211"
    and tz: "tz = [] \<or> tz = ascii '' IST''"
  shows "time_parts (a @ [sep] @ b @ tz) = [a, b]"
proof -
  let ?w = "a @ [sep] @ b"
  have w: "?w \<noteq> []" "\<forall>c\<in>set ?w. \<not> isspace c \<and> 32 \<le> c \<and> c \<noteq> 95"
    using a b sep by (auto simp: isspace_def)
  have s1: "py_strip (py_replace (ascii '' IST'') [] (clean_str (?w @ tz))) = ?w"
    using w tz by (rule strip_ist)
  have na: "8211 \<notin> set a" "45 \<notin> set a" and nb: "8211 \<notin> set b" "45 \<notin> set b"
    using a b by auto
  have s2: "py_replace [8211] [45] ?w = a @ [45] @ b"
    using replace_skip [OF na(1), of "[]" "[45]" "[sep] @ b"] replace_none [OF nb(1), of "[]" "[45]"] sep
    by auto
  have s3: "split_char 45 (a @ [45] @ b) = [a, b]"
    using split_char_skip [OF na(2), of b] split_char_none [OF nb(2)] by simp
  have s4: "py_strip a = a" "py_strip b = b"
    using a b isspace_plain by (auto intro!: py_strip_plain)
  show ?thesis
    using s1 s2 s3 s4 by (simp add: time_parts_def)
qed

lemma time_parts_single:
  assumes a: "a \<noteq> []" "\<forall>c\<in>set a. 48 \<le> c \<and> c \<le> 58"
    and tz: "tz = [] \<or> tz = ascii '' IST''"
  shows "time_parts (a @ tz) = [a]"
proof -
  have w: "a \<noteq> []" "\<forall>c\<in>set a. \<not> isspace c \<and> 32 \<le> c \<and> c \<noteq> 95"
    using a by (auto simp: isspace_def)
  have s1: "py_strip (py_replace (ascii '' IST'') [] (clean_str (a @ tz))) = a"
    using w tz by (rule strip_ist)
  have na: "8211 \<notin> set a" "45 \<notin> set a" using a by auto
  have s2: "py_replace [8211] [45] a = a" using replace_none [OF na(1)] by simp
  have s3: "split_char 45 a = [a]" using split_char_none [OF na(2)] .
  have s4: "py_strip a = a" using a isspace_plain by (auto intro!: py_strip_plain)
  show ?thesis
    using s1 s2 s3 s4 by (simp add: time_parts_def)
qed

lemma set_py_replace: "set (py_replace old new s) \<subseteq> set s \<union> set new"
proof (induction old new s rule: py_replace.induct)
  case (1 old new)
  then show ?case by simp
next
  case (2 old new c cs)
  have "set (drop (length old) (c # cs)) \<subseteq> set (c # cs)" by (rule set_drop_subset)
  with 2 show ?case by (auto split: if_splits)
qed

lemma set_sub_ctrl: "set (sub_ctrl s) \<subseteq> insert 32 (set s)"
proof (induction s rule: sub_ctrl.induct)
  case 1
  then show ?case by simp
next
  case (2 c cs)
  have "set (dropWhile (\<lambda>d. d < 32) cs) \<subseteq> set cs" by (auto dest: set_dropWhileD)
  with 2 show ?case by (auto split: if_splits)
qed

lemma set_clean_str: "set (clean_str x) \<subseteq> insert 32 (set x)"
proof
  fix c assume "c \<in> set (clean_str x)"
  let ?z = "sub_ctrl (py_replace artifact [32] x)"
  from \<open>c \<in> set (clean_str x)\<close> have "c = 32 \<or> (\<exists>w\<in>set (py_split ?z). c \<in> set w)"
    using set_py_join [of "[32]" "py_split ?z"] by (auto simp: clean_str_def)
  moreover have "\<And>w. w \<in> set (py_split ?z) \<Longrightarrow> set w \<subseteq> set ?z"
    using py_split_sublist set_mono_sublist by blast
  ultimately have "c = 32 \<or> c \<in> set ?z" by blast
  then show "c \<in> insert 32 (set x)"
    using set_sub_ctrl [of "py_replace artifact [32] x"] set_py_replace [of artifact "[32]" x]
    by auto
qed

lemma set_py_strip: "set (py_strip s) \<subseteq> set s"
  by (auto simp: py_strip_def dest!: set_dropWhileD)

lemma set_split_char: "p \<in> set (split_char sep s) \<Longrightarrow> set p \<subseteq> set s"
proof (induction s arbitrary: p)
  case Nil
  then show ?case by simp
next
  case (Cons c cs)
  then show ?case by (fastforce split: if_splits list.splits)
qed

lemma set_time_parts:
  assumes "p \<in> set (time_parts x)"
  shows "set p \<subseteq> insert 32 (insert 45 (set x))"
proof -
  let ?s1 = "py_strip (py_replace (ascii '' IST'') [] (clean_str x))"
  let ?s2 = "py_replace [8211] [45] ?s1"
  from assms obtain q where q: "q \<in> set (split_char 45 ?s2)" "p = py_strip q"
    by (auto simp: time_parts_def Let_def)
  have "set ?s1 \<subseteq> insert 32 (set x)"
    using set_py_strip [of "py_replace (ascii '' IST'') [] (clean_str x)"]
      set_py_replace [of "ascii '' IST''" "[]" "clean_str x"] set_clean_str [of x]
    by auto
  then have "set ?s2 \<subseteq> insert 32 (insert 45 (set x))"
    using set_py_replace [of "[8211]" "[45]" ?s1] by auto
  moreover have "set p \<subseteq> set ?s2"
    using q set_split_char [of q 45 ?s2] set_py_strip [of q] by auto
  ultimately show ?thesis by blast
qed

lemma digit_val_32_45: "digit_val 32 = None" "digit_val 45 = None"
  by (simp_all add: digit_val_low)

lemma parse_part_digit:
  assumes "parse_part p = Some t"
  shows "\<exists>c\<in>set p. digit_val c \<noteq> None"
proof (cases p)
  case Nil
  with assms show ?thesis
    by (simp add: parse_part_def strptime_HM_def re_HM_def)
next
  case (Cons c cs)
  have "digit_val c \<noteq> None"
  proof (rule ccontr)
    assume "\<not> digit_val c \<noteq> None"
    then have n: "digit_val c = None" by simp
    then have "c \<noteq> 50" "\<not> (48 \<le> c \<and> c \<le> 49)"
      using digit_val_ascii [of c] by auto
    with n Cons have "re_match re_HM p = None"
      by (auto simp: re_HM_def)
    with assms show False by (simp add: parse_part_def strptime_HM_def)
  qed
  with Cons show ?thesis by auto
qed

lemma parse_time_range_garbage:
  assumes "\<forall>c\<in>set x. digit_val c = None"
  shows "parse_time_range (Str x) = (None, None)"
proof -
  have none: "parse_part p = None" if "p \<in> set (time_parts x)" for p
  proof (rule ccontr)
    assume "parse_part p \<noteq> None"
    then obtain t where "parse_part p = Some t" by auto
    then obtain c where "c \<in> set p" "digit_val c \<noteq> None"
      using parse_part_digit by blast
    moreover have "set p \<subseteq> insert 32 (insert 45 (set x))"
      using that by (rule set_time_parts)
    ultimately show False using assms digit_val_32_45 by auto
  qed
  have a: "(case time_parts x of [] \<Rightarrow> None | p # _ \<Rightarrow> parse_part p) = None"
    using none by (cases "time_parts x") auto
  have b: "(if length (time_parts x) > 1 then parse_part (time_parts x ! 1) else None) = None"
    using none by auto
  show ?thesis using a b by (simp add: Let_def)
qed

section \<open>The parser against the clock texts\<close>

lemma digit_val_gap1: "4250 \<le> c \<Longrightarrow> c < 6112 \<Longrightarrow> digit_val c = None"
  by (simp add: digit_val_def digit_zeros_def)

lemma digit_val_gap2: "7258 \<le> c \<Longrightarrow> c < 42528 \<Longrightarrow> digit_val c = None"
  by (simp add: digit_val_def digit_zeros_def)

lemma isspace_not_digit: "isspace c \<Longrightarrow> digit_val c = None"
  unfolding isspace_def
  by (auto simp: digit_val_low digit_val_mid digit_val_gap1 digit_val_gap2)

lemma py_int_1: "digit_val a = Some d \<Longrightarrow> py_int [a] = int d"
  using isspace_not_digit [of a] by (auto simp: py_int_def)

lemma py_int_2:
  "digit_val a = Some d \<Longrightarrow> digit_val b = Some e \<Longrightarrow> py_int [a, b] = 10 * int d + int e"
  using isspace_not_digit [of a] by (auto simp: py_int_def)


lemma minute_group_Nil: "first_alt [[Range 48 53, Digit], [Digit]] [] [] = None"
  by simp

lemma minute_group_1:
  "first_alt [[Range 48 53, Digit], [Digit]] [] [a] =
     (if digit_val a \<noteq> None then Some ([[a]], []) else None)"
  by simp

lemma minute_group_2:
  "first_alt [[Range 48 53, Digit], [Digit]] [] (a # b # r) =
     (if 48 \<le> a \<and> a \<le> 53 \<and> digit_val b \<noteq> None then Some ([[a, b]], r)
      else if digit_val a \<noteq> None then Some ([[a]], b # r) else None)"
  by simp

lemma first_alt_minute:
  "first_alt [[Range 48 53, Digit], [Digit]] [] ms =
     (case minute_of ms of None \<Rightarrow> None | Some (m, rest) \<Rightarrow> Some ([m], rest))"
proof (cases ms)
  case Nil
  then show ?thesis by (simp add: minute_of_def)
next
  case (Cons a r)
  show ?thesis
  proof (cases r)
    case Nil
    with Cons show ?thesis by (simp add: minute_of_def)
  next
    case (Cons b r')
    with \<open>ms = a # r\<close> show ?thesis
      by (simp add: minute_of_def minute_group_2 del: first_alt.simps)
  qed
qed

lemma minute_of_text:
  "(case minute_of ms of None \<Rightarrow> None
    | Some (m, rest) \<Rightarrow> if rest \<noteq> [] then None else Some (py_int m)) = minute_text ms"
proof (cases ms)
  case Nil
  then show ?thesis by (simp add: minute_of_def)
next
  case (Cons a r)
  note ms = this
  show ?thesis
  proof (cases r)
    case Nil
    with ms show ?thesis
      by (cases "digit_val a") (simp_all add: minute_of_def py_int_1)
  next
    case (Cons b r')
    note r = this
    show ?thesis
    proof (cases "48 \<le> a \<and> a \<le> 53 \<and> digit_val b \<noteq> None")
      case True
      then obtain e where e: "digit_val b = Some e" by auto
      from True have a: "digit_val a = Some (a - 48)" by (simp add: digit_val_ascii)
      have "py_int [a, b] = 10 * (int a - 48) + int e"
        using py_int_2 [OF a e] True by (simp add: of_nat_diff)
      with True e ms r show ?thesis
        by (cases r') (simp_all add: minute_of_def minute_group_2 del: first_alt.simps)
    next
      case False
      have mt: "minute_text ms = None"
        using False ms r by (cases r') (auto split: if_splits)
      show ?thesis
        using False ms r mt
        by (simp add: minute_of_def minute_group_2 del: first_alt.simps)
    qed
  qed
qed


lemma re_tail:
  "re_match [Single (Lit 58), Group [[Range 48 53, Digit], [Digit]]] s =
     (case s of
        [] \<Rightarrow> None
      | c # ms \<Rightarrow>
          if c = 58
          then (case minute_of ms of None \<Rightarrow> None | Some (m, rest) \<Rightarrow> Some ([m], rest))
          else None)"
  by (cases s) (simp_all add: first_alt_minute del: first_alt.simps)

lemma strptime_HM_Nil: "strptime_HM [] = Inl ValueError"
  by (simp add: strptime_HM_def re_HM_def)

lemma strptime_HM_one: "strptime_HM [a] = Inl ValueError"
  by (simp add: strptime_HM_def re_HM_def)

lemma strptime_HM_colon2:
  "strptime_HM (a # 58 # ms) = (if digit_val a \<noteq> None then hm_result [a] ms else Inl ValueError)"
proof -
  have "re_match re_HM (a # 58 # ms) =
        (if digit_val a \<noteq> None
         then (case minute_of ms of None \<Rightarrow> None | Some (m, rest) \<Rightarrow> Some ([[a], m], rest))
         else None)"
    unfolding re_HM_def
    by (simp add: re_tail digit_val_colon split: option.splits del: re_match.simps(2))
  then show ?thesis
    by (simp add: strptime_HM_def hm_result_def split: option.splits)
qed

lemma strptime_HM_two: "b \<noteq> 58 \<Longrightarrow> strptime_HM [a, b] = Inl ValueError"
  by (simp add: strptime_HM_def re_HM_def)

lemma strptime_HM_colon3:
  assumes "b \<noteq> 58"
  shows "strptime_HM (a # b # c # r) =
         (if c = 58 \<and> (a = 50 \<and> 48 \<le> b \<and> b \<le> 51 \<or> 48 \<le> a \<and> a \<le> 49 \<and> digit_val b \<noteq> None)
          then hm_result [a, b] r else Inl ValueError)"
proof -
  have "re_match re_HM (a # b # c # r) =
        (if c = 58 \<and> (a = 50 \<and> 48 \<le> b \<and> b \<le> 51 \<or> 48 \<le> a \<and> a \<le> 49 \<and> digit_val b \<noteq> None)
         then (case minute_of r of None \<Rightarrow> None | Some (m, rest) \<Rightarrow> Some ([[a, b], m], rest))
         else None)"
    unfolding re_HM_def using assms
    by (simp add: re_tail split: option.splits del: re_match.simps(2))
  then show ?thesis
    by (auto simp: strptime_HM_def hm_result_def split: option.splits)
qed

lemma hm_result_text:
  "(case hm_result h ms of Inl e \<Rightarrow> None | Inr t \<Rightarrow> Some t) =
     (case minute_text ms of None \<Rightarrow> None | Some m \<Rightarrow> Some (py_int h, m))"
proof (cases "minute_of ms")
  case None
  with minute_of_text [of ms] show ?thesis by (simp add: hm_result_def)
next
  case (Some x)
  obtain m rest where x: "x = (m, rest)" by (cases x)
  show ?thesis
  proof (cases "rest = []")
    case True
    with Some x minute_of_text [of ms] have "minute_text ms = Some (py_int m)" by simp
    with Some x True show ?thesis by (simp add: hm_result_def)
  next
    case False
    with Some x minute_of_text [of ms] have "minute_text ms = None" by simp
    with Some x False show ?thesis by (simp add: hm_result_def)
  qed
qed

lemma parse_part_clock: "parse_part p = clock_text p"
proof (cases p)
  case Nil
  then show ?thesis by (simp add: parse_part_def strptime_HM_Nil clock_text_def)
next
  case (Cons a r)
  note p = this
  show ?thesis
  proof (cases r)
    case Nil
    with p show ?thesis by (simp add: parse_part_def strptime_HM_one clock_text_def)
  next
    case (Cons b r1)
    note r = this
    show ?thesis
    proof (cases "b = 58")
      case True
      show ?thesis
      proof (cases "digit_val a")
        case None
        then have "hour_text (takeWhile (\<lambda>c. c \<noteq> 58) p) = None"
          using p r True by simp
        with None p r True show ?thesis
          by (simp add: parse_part_def strptime_HM_colon2 clock_text_def split: list.splits)
      next
        case (Some d)
        then have a: "a \<noteq> 58" using digit_val_colon by auto
        with Some p r True show ?thesis
          using hm_result_text [of "[a]" r1]
          by (simp add: parse_part_def strptime_HM_colon2 clock_text_def py_int_1
              split: option.splits)
      qed
    next
      case False
      note b = this
      show ?thesis
      proof (cases r1)
        case Nil
        with p r b show ?thesis
          by (simp add: parse_part_def strptime_HM_two clock_text_def)
      next
        case (Cons c r2)
        note r1 = this
        let ?ok = "c = 58 \<and> (a = 50 \<and> 48 \<le> b \<and> b \<le> 51 \<or> 48 \<le> a \<and> a \<le> 49 \<and> digit_val b \<noteq> None)"
        show ?thesis
        proof (cases ?ok)
          case True
          then have a: "a \<noteq> 58" and c: "c = 58" by auto
          have h: "hour_text [a, b] = Some (py_int [a, b])"
          proof (cases "a = 50 \<and> 48 \<le> b \<and> b \<le> 51")
            case True
            then have "digit_val a = Some 2" "digit_val b = Some (b - 48)"
              by (simp_all add: digit_val_ascii)
            from py_int_2 [OF this] True show ?thesis by (simp add: of_nat_diff)
          next
            case False
            with \<open>?ok\<close> obtain e where e: "48 \<le> a" "a \<le> 49" "digit_val b = Some e" by auto
            then have "digit_val a = Some (a - 48)" by (simp add: digit_val_ascii)
            from py_int_2 [OF this e(3)] False e show ?thesis by (auto simp: of_nat_diff)
          qed
          have "clock_text p = (case minute_text r2 of None \<Rightarrow> None | Some m \<Rightarrow> Some (py_int [a, b], m))"
            using p r r1 a b c h by (simp add: clock_text_def split: option.splits)
          moreover have "parse_part p = (case hm_result [a, b] r2 of Inl e \<Rightarrow> None | Inr t \<Rightarrow> Some t)"
            using p r r1 b True by (simp add: parse_part_def strptime_HM_colon3)
          ultimately show ?thesis by (simp add: hm_result_text)
        next
          case False
          have "strptime_HM p = Inl ValueError"
            using p r r1 b False strptime_HM_colon3 [OF b, of a c r2] by auto
          then have "parse_part p = None" by (simp add: parse_part_def)
          moreover have "clock_text p = None"
          proof (cases "a = 58")
            case True
            with p show ?thesis by (simp add: clock_text_def)
          next
            case False
            note a = this
            show ?thesis
            proof (cases "c = 58")
              case True
              with \<open>\<not> ?ok\<close> have "hour_text [a, b] = None" by (auto split: option.splits)
              with True p r r1 a b show ?thesis by (simp add: clock_text_def)
            next
              case False
              with p r r1 a b show ?thesis
                by (simp add: clock_text_def split: list.splits)
            qed
          qed
          ultimately show ?thesis by simp
        qed
      qed
    qed
  qed
qed

lemma words_tok:
  "\<forall>c\<in>set tok. 32 \<le> c \<and> \<not> isspace c
   \<Longrightarrow> split_ws cur (sub_ctrl (tok @ s)) = split_ws (cur @ tok) (sub_ctrl s)"
  by (induction tok arbitrary: cur) auto

lemma words_drop_ctrl: "split_ws [] (sub_ctrl (dropWhile (\<lambda>d. d < 32) t)) = split_ws [] (sub_ctrl t)"
proof (induction t)
  case Nil
  then show ?case by simp
next
  case (Cons c t)
  then show ?case by (simp add: isspace_32)
qed

lemma words_gap:
  assumes "\<forall>c\<in>set g. blank c"
  shows "split_ws cur (sub_ctrl (g @ s)) =
         (if g = [] then split_ws cur (sub_ctrl s)
          else (if cur = [] then [] else [cur]) @ split_ws [] (sub_ctrl s))"
  using assms
proof (induction g arbitrary: cur)
  case Nil
  then show ?case by simp
next
  case (Cons c g)
  have IH: "split_ws [] (sub_ctrl (g @ s)) = split_ws [] (sub_ctrl s)"
    using Cons.IH [of "[]"] Cons.prems by simp
  show ?case
  proof (cases "c < 32")
    case True
    have "split_ws [] (sub_ctrl (dropWhile (\<lambda>d. d < 32) (g @ s))) = split_ws [] (sub_ctrl s)"
      using words_drop_ctrl [of "g @ s"] IH by simp
    with True show ?thesis by (simp add: isspace_32)
  next
    case False
    with Cons.prems have "isspace c" by (simp add: blank_def)
    with False IH show ?thesis by simp
  qed
qed

lemma words_end: "split_ws cur (sub_ctrl []) = (if cur = [] then [] else [cur])"
  by simp

lemma token_charD:
  "token_char c \<Longrightarrow> 32 \<le> c \<and> \<not> isspace c \<and> c \<noteq> 32 \<and> c \<noteq> 45 \<and> c \<noteq> 8211 \<and> c \<noteq> 95 \<and> c \<noteq> 73"
  using isspace_32 by (auto simp: token_char_def)

lemma blank_not_95: "blank c \<Longrightarrow> c \<noteq> 95"
  by (auto simp: blank_def isspace_def)

lemma tok_no_95: "\<forall>c\<in>set A. token_char c \<Longrightarrow> 95 \<notin> set A"
  using token_charD by blast

lemma gap_no_95: "\<forall>c\<in>set g. blank c \<Longrightarrow> 95 \<notin> set g"
  using blank_not_95 by blast

lemma ist_tok: "\<forall>c\<in>set [73, 83, 84]. 32 \<le> c \<and> \<not> isspace c"
  by (simp add: isspace_def)

lemma words_tail:
  assumes B: "\<forall>c\<in>set B. token_char c" "B \<noteq> []"
    and g: "\<forall>c\<in>set g3. blank c" "\<forall>c\<in>set g4. blank c" "g3 \<noteq> []"
    and lbl: "lbl = [] \<or> lbl = g3 @ [73, 83, 84]"
  shows "split_ws cur (sub_ctrl (B @ lbl @ g4)) =
         (cur @ B) # (if lbl = [] then [] else [[73, 83, 84]])"
proof -
  have tokB: "\<forall>c\<in>set B. 32 \<le> c \<and> \<not> isspace c" using B(1) token_charD by blast
  have 1: "split_ws cur (sub_ctrl (B @ lbl @ g4)) = split_ws (cur @ B) (sub_ctrl (lbl @ g4))"
    using tokB by (rule words_tok)
  have e: "split_ws c' (sub_ctrl g4) = (if c' = [] then [] else [c'])" for c'
    using words_gap [OF g(2), of c' "[]"] by simp
  from lbl show ?thesis
  proof
    assume "lbl = []"
    with 1 e [of "cur @ B"] B(2) show ?thesis by simp
  next
    assume l: "lbl = g3 @ [73, 83, 84]"
    have "split_ws (cur @ B) (sub_ctrl (g3 @ [73, 83, 84] @ g4))
          = [cur @ B] @ split_ws [] (sub_ctrl ([73, 83, 84] @ g4))"
      using words_gap [OF g(1), of "cur @ B" "[73, 83, 84] @ g4"] g(3) B(2) by simp
    also have "split_ws [] (sub_ctrl ([73, 83, 84] @ g4)) = split_ws ([] @ [73, 83, 84]) (sub_ctrl g4)"
      using ist_tok by (rule words_tok)
    also have "\<dots> = [[73, 83, 84]]" using e [of "[73, 83, 84]"] by simp
    finally show ?thesis using 1 l by simp
  qed
qed

lemma no_artifact_family:
  assumes "\<forall>c\<in>set x. c \<noteq> 95"
  shows "py_replace artifact [32] x = x"
proof -
  have "95 \<in> set artifact" by (simp add: artifact_code)
  then have "\<not> sublist artifact x" using assms set_mono_sublist [of artifact x] by blast
  then show ?thesis by (rule py_replace_absent)
qed

lemma clean_family2:
  assumes A: "\<forall>c\<in>set A. token_char c" "A \<noteq> []"
    and B: "\<forall>c\<in>set B. token_char c" "B \<noteq> []"
    and g: "\<forall>c\<in>set g0. blank c" "\<forall>c\<in>set g1. blank c" "\<forall>c\<in>set g2. blank c"
      "\<forall>c\<in>set g3. blank c" "\<forall>c\<in>set g4. blank c" "g3 \<noteq> []"
    and sep: "sep = 45 \<or> sep = 8211"
    and lbl: "lbl = [] \<or> lbl = g3 @ [73, 83, 84]"
  shows "clean_str (g0 @ A @ g1 @ [sep] @ g2 @ B @ lbl @ g4) =
         A @ (if g1 = [] then [] else [32]) @ [sep] @ (if g2 = [] then [] else [32]) @ B
           @ (if lbl = [] then [] else [32, 73, 83, 84])"
proof -
  let ?x = "g0 @ A @ g1 @ [sep] @ g2 @ B @ lbl @ g4"
  let ?T = "if lbl = [] then [] else [[73, 83, 84]]"
  have "95 \<notin> set ?x"
    using tok_no_95 [OF A(1)] tok_no_95 [OF B(1)] gap_no_95 [OF g(1)] gap_no_95 [OF g(2)]
      gap_no_95 [OF g(3)] gap_no_95 [OF g(4)] gap_no_95 [OF g(5)] sep lbl
    by auto
  then have "\<forall>c\<in>set ?x. c \<noteq> 95" by blast
  then have r: "py_replace artifact [32] ?x = ?x" by (rule no_artifact_family)
  have tokA: "\<forall>c\<in>set A. 32 \<le> c \<and> \<not> isspace c" using A(1) token_charD by blast
  have toks: "\<forall>c\<in>set [sep]. 32 \<le> c \<and> \<not> isspace c" using sep by (auto simp: isspace_def)
  have tail: "split_ws cur (sub_ctrl (B @ lbl @ g4)) = (cur @ B) # ?T" for cur
    using B g(4,5,6) lbl by (rule words_tail)
  have 0: "split_ws [] (sub_ctrl ?x) = split_ws [] (sub_ctrl (A @ g1 @ [sep] @ g2 @ B @ lbl @ g4))"
    using words_gap [OF g(1), of "[]"] by simp
  have 1: "\<dots> = split_ws A (sub_ctrl (g1 @ [sep] @ g2 @ B @ lbl @ g4))"
    using words_tok [OF tokA, of "[]"] by simp
  have 2: "split_ws cur (sub_ctrl ([sep] @ g2 @ B @ lbl @ g4)) =
           (if g2 = [] then (cur @ [sep] @ B) # ?T else (cur @ [sep]) # B # ?T)" for cur
  proof -
    have "split_ws cur (sub_ctrl ([sep] @ g2 @ B @ lbl @ g4))
          = split_ws (cur @ [sep]) (sub_ctrl (g2 @ B @ lbl @ g4))"
      using toks by (rule words_tok)
    also have "\<dots> = (if g2 = [] then split_ws (cur @ [sep]) (sub_ctrl (B @ lbl @ g4))
                     else [cur @ [sep]] @ split_ws [] (sub_ctrl (B @ lbl @ g4)))"
      using words_gap [OF g(3), of "cur @ [sep]"] by simp
    finally show ?thesis using tail [of "cur @ [sep]"] tail [of "[]"] by simp
  qed
  have 3: "split_ws A (sub_ctrl (g1 @ [sep] @ g2 @ B @ lbl @ g4)) =
           (if g1 = [] then split_ws A (sub_ctrl ([sep] @ g2 @ B @ lbl @ g4))
            else [A] @ split_ws [] (sub_ctrl ([sep] @ g2 @ B @ lbl @ g4)))"
    using words_gap [OF g(2), of A] A(2) by simp
  have w: "py_split (sub_ctrl ?x) =
           (if g1 = [] then (if g2 = [] then (A @ [sep] @ B) # ?T else (A @ [sep]) # B # ?T)
            else (if g2 = [] then A # ([sep] @ B) # ?T else A # [sep] # B # ?T))"
    unfolding py_split_def 0 1 3 2 by simp
  show ?thesis
    unfolding clean_str_def r w by simp
qed

lemma clean_family1:
  assumes A: "\<forall>c\<in>set A. token_char c" "A \<noteq> []"
    and g: "\<forall>c\<in>set g0. blank c" "\<forall>c\<in>set g3. blank c" "\<forall>c\<in>set g4. blank c" "g3 \<noteq> []"
    and lbl: "lbl = [] \<or> lbl = g3 @ [73, 83, 84]"
  shows "clean_str (g0 @ A @ lbl @ g4) = A @ (if lbl = [] then [] else [32, 73, 83, 84])"
proof -
  let ?x = "g0 @ A @ lbl @ g4"
  have "95 \<notin> set ?x"
    using tok_no_95 [OF A(1)] gap_no_95 [OF g(1)] gap_no_95 [OF g(2)] gap_no_95 [OF g(3)] lbl
    by auto
  then have "\<forall>c\<in>set ?x. c \<noteq> 95" by blast
  then have r: "py_replace artifact [32] ?x = ?x" by (rule no_artifact_family)
  have "split_ws [] (sub_ctrl ?x) = split_ws [] (sub_ctrl (A @ lbl @ g4))"
    using words_gap [OF g(1), of "[]"] by simp
  also have "\<dots> = ([] @ A) # (if lbl = [] then [] else [[73, 83, 84]])"
    using A g(2,3,4) lbl by (rule words_tail)
  finally show ?thesis
    unfolding clean_str_def r py_split_def by simp
qed

lemma py_strip_pad:
  assumes "A \<noteq> []" "\<not> isspace (hd A)" "\<not> isspace (last A)"
    and "\<forall>c\<in>set l. isspace c" "\<forall>c\<in>set r. isspace c"
  shows "py_strip (l @ A @ r) = A"
proof -
  have 1: "dropWhile isspace (l @ A @ r) = A @ r"
    using assms(1,2,4) by (cases A) (simp_all add: dropWhile_append3)
  have "dropWhile isspace (rev r @ rev A) = rev A"
    using assms(1,3,5) by (cases "rev A") (auto simp: dropWhile_append3 last_rev [symmetric] simp del: last_rev)
  with 1 show ?thesis by (simp add: py_strip_def)
qed

lemma tok_ends:
  assumes "\<forall>c\<in>set A. token_char c" "A \<noteq> []"
  shows "\<not> isspace (hd A)" "\<not> isspace (last A)"
  using assms token_charD hd_in_set last_in_set by blast+

lemma canon_parts2:
  assumes A: "\<forall>c\<in>set A. token_char c" "A \<noteq> []"
    and B: "\<forall>c\<in>set B. token_char c" "B \<noteq> []"
    and s: "s1 = [] \<or> s1 = [32]" "s2 = [] \<or> s2 = [32]"
    and sep: "sep = 45 \<or> sep = 8211"
    and tz: "tz = [] \<or> tz = [32, 73, 83, 84]"
  shows "map py_strip (split_char 45 (py_replace [8211] [45]
           (py_strip (py_replace [32, 73, 83, 84] [] (A @ s1 @ [sep] @ s2 @ B @ tz))))) = [A, B]"
proof -
  have nA: "32 \<notin> set A" "8211 \<notin> set A" "45 \<notin> set A"
    and nB: "32 \<notin> set B" "8211 \<notin> set B" "45 \<notin> set B" "73 \<notin> set B"
    using A(1) B(1) token_charD by blast+
  obtain b B' where Bc: "B = b # B'" using B(2) by (cases B) auto
  have b: "b \<noteq> 73" "b \<noteq> 32" "32 \<notin> set B'" using nB Bc by auto
  have t: "py_replace [32, 73, 83, 84] [] (B' @ tz) = B'"
    using replace_skip [OF b(3), of "[73, 83, 84]" "[]" tz] tz by auto
  have "py_replace [32, 73, 83, 84] [] (s1 @ [sep] @ s2 @ b # B' @ tz) = s1 @ [sep] @ s2 @ b # B'"
    using s sep b t by auto
  then have a: "py_replace [32, 73, 83, 84] [] (A @ s1 @ [sep] @ s2 @ B @ tz) = A @ s1 @ [sep] @ s2 @ B"
    using replace_skip [OF nA(1), of "[73, 83, 84]" "[]" "s1 @ [sep] @ s2 @ B @ tz"] Bc by simp
  let ?y = "A @ s1 @ [sep] @ s2 @ B"
  have "hd ?y = hd A" "last ?y = last B" using A(2) B(2) by simp_all
  then have sy: "py_strip ?y = ?y"
    using tok_ends [OF A] tok_ends [OF B] A(2) by (intro py_strip_id) simp_all
  have n1: "8211 \<notin> set (A @ s1)" "45 \<notin> set (A @ s1)" using nA s by auto
  have n2: "8211 \<notin> set (s2 @ B)" "45 \<notin> set (s2 @ B)" using nB s by auto
  have "py_replace [8211] [45] ([sep] @ s2 @ B) = [45] @ s2 @ B"
    using sep replace_none [OF n2(1), of "[]" "[45]"] by auto
  then have d: "py_replace [8211] [45] ?y = (A @ s1) @ 45 # (s2 @ B)"
    using replace_skip [OF n1(1), of "[]" "[45]" "[sep] @ s2 @ B"] by simp
  have sp: "split_char 45 ((A @ s1) @ 45 # (s2 @ B)) = [A @ s1, s2 @ B]"
    using split_char_skip [OF n1(2), of "s2 @ B"] split_char_none [OF n2(2)] by simp
  have s1: "\<forall>c\<in>set s1. isspace c" "\<forall>c\<in>set s2. isspace c" using s isspace_32 by auto
  have "py_strip ([] @ A @ s1) = A"
    using A(2) tok_ends [OF A] _ s1(1) by (rule py_strip_pad) simp
  moreover have "py_strip (s2 @ B @ []) = B"
    using B(2) tok_ends [OF B] s1(2) by (rule py_strip_pad) simp
  ultimately show ?thesis
    unfolding a sy d sp by simp
qed

lemma canon_parts1:
  assumes A: "\<forall>c\<in>set A. token_char c" "A \<noteq> []"
    and tz: "tz = [] \<or> tz = [32, 73, 83, 84]"
  shows "map py_strip (split_char 45 (py_replace [8211] [45]
           (py_strip (py_replace [32, 73, 83, 84] [] (A @ tz))))) = [A]"
proof -
  have nA: "32 \<notin> set A" "8211 \<notin> set A" "45 \<notin> set A"
    using A(1) token_charD by blast+
  have a: "py_replace [32, 73, 83, 84] [] (A @ tz) = A"
    using replace_skip [OF nA(1), of "[73, 83, 84]" "[]" tz] tz by auto
  have sy: "py_strip A = A"
    using tok_ends [OF A] A(2) by (intro py_strip_id) simp_all
  have d: "py_replace [8211] [45] A = A" using replace_none [OF nA(2)] by simp
  have sp: "split_char 45 A = [A]" using split_char_none [OF nA(3)] .
  show ?thesis unfolding a sy d sp by (simp add: sy)
qed

lemma time_parts_family:
  assumes A: "\<forall>c\<in>set A. token_char c" "A \<noteq> []"
    and B: "\<forall>c\<in>set B. token_char c" "B \<noteq> []"
    and g: "\<forall>c\<in>set g0. blank c" "\<forall>c\<in>set g1. blank c" "\<forall>c\<in>set g2. blank c"
      "\<forall>c\<in>set g3. blank c" "\<forall>c\<in>set g4. blank c" "g3 \<noteq> []"
    and sep: "sep = 45 \<or> sep = 8211"
    and lbl: "lbl = [] \<or> lbl = g3 @ ascii ''IST''"
  shows "time_parts (g0 @ A @ g1 @ [sep] @ g2 @ B @ lbl @ g4) = [A, B]"
    and "time_parts (g0 @ A @ lbl @ g4) = [A]"
proof -
  have lbl': "lbl = [] \<or> lbl = g3 @ [73, 83, 84]" using lbl by (simp add: ascii_def)
  have i: "ascii '' IST'' = [32, 73, 83, 84]" by (simp add: ascii_def)
  show "time_parts (g0 @ A @ g1 @ [sep] @ g2 @ B @ lbl @ g4) = [A, B]"
    unfolding time_parts_def Let_def i clean_family2 [OF A B g sep lbl']
    by (rule canon_parts2 [OF A B _ _ sep]) auto
  show "time_parts (g0 @ A @ lbl @ g4) = [A]"
    unfolding time_parts_def Let_def i clean_family1 [OF A g(1,4,5,6) lbl']
    by (rule canon_parts1 [OF A]) auto
qed

lemma digit_val_lt: "digit_val c = Some d \<Longrightarrow> d < 10"
proof -
  assume a: "digit_val c = Some d"
  then obtain z zs where f: "filter (\<lambda>z. z \<le> c \<and> c < z + 10) digit_zeros = z # zs" and d: "d = c - z"
    by (auto simp: digit_val_def split: list.splits)
  have "z \<in> set (filter (\<lambda>z. z \<le> c \<and> c < z + 10) digit_zeros)" using f by simp
  then have "z \<le> c \<and> c < z + 10" by simp
  with d show ?thesis by arith
qed

lemma hour_text_range: "hour_text hs = Some h \<Longrightarrow> 0 \<le> h \<and> h < 24"
proof (induction hs rule: hour_text.induct)
  case (1 a)
  then show ?case using digit_val_lt [of a] by fastforce
next
  case (2 a b)
  then show ?case using digit_val_lt [of b] by (fastforce split: if_splits)
qed simp_all

lemma minute_text_range: "minute_text ms = Some m \<Longrightarrow> 0 \<le> m \<and> m < 60"
proof (induction ms rule: minute_text.induct)
  case (1 a)
  then show ?case using digit_val_lt [of a] by fastforce
next
  case (2 a b)
  then show ?case using digit_val_lt [of b] by (fastforce split: if_splits)
qed simp_all

lemma clock_text_range: "clock_text p = Some (h, m) \<Longrightarrow> 0 \<le> h \<and> h < 24 \<and> 0 \<le> m \<and> m < 60"
  using hour_text_range minute_text_range
  by (auto simp: clock_text_def split: list.splits option.splits)

lemma split_char_not_Nil: "split_char sep s \<noteq> []"
  by (induction s) (auto split: list.splits)

lemma time_parts_not_Nil: "time_parts x \<noteq> []"
  by (simp add: time_parts_def Let_def split_char_not_Nil)

lemma parse_time_range_parts:
  "parse_time_range (Str x) =
     (clock_text (hd (time_parts x)),
      case tl (time_parts x) of [] \<Rightarrow> None | q # _ \<Rightarrow> clock_text q)"
proof (cases "time_parts x")
  case Nil
  with time_parts_not_Nil show ?thesis by simp
next
  case (Cons p ps)
  then show ?thesis by (cases ps) (simp_all add: Let_def parse_part_clock)
qed

section \<open>Facts about the enricher and the filter\<close>

lemma enrich_InrD:
  assumes "enrich_schedule df = Inr t"
  obtains ps where "all_instants (map clean_row (rows df)) = Inr ps"
    and "has_col df ''Month #'' \<and> has_col df ''Day'' \<or> list_ex is_DT (to_column (map fst ps))"
    and "ascii ''Week'' \<in> set (out_columns df)"
    and "\<not> mixed_weeks (assemble df ps)"
    and "t = \<lparr>ecolumns = out_columns df, erows = sort_key row_key (assemble df ps)\<rparr>"
  using assms
  by (auto simp: enrich_schedule_def sort_rows_def split: sum.splits if_splits)






section \<open>The example, evaluated\<close>

lemmas str_eval = ascii_def clean_str_def artifact_code py_split_def isspace_def py_strip_def
lemmas parse_eval = strptime_Ymd_def re_Ymd_def time_parts_def parse_part_def strptime_HM_def re_HM_def
  digit_val_ascii digit_val_low digit_val_mid py_int_def
lemmas date_eval = ymd2ord_def days_before_year_def days_before_month_def days_in_month_def is_leap_def
  days_in_month_tab_def days_before_month_tab_def
lemmas dt_eval = combine_def dt_add_def dt_max_def minutes_def us_per_day_def dt_ymd_def dt_month_def
  ord2ymd_def day_abbr_def

lemma clean_ex:
  "clean_str (ascii ''W0'') = ascii ''W0''" "clean_str (ascii ''W1'') = ascii ''W1''"
  "clean_str (ascii ''W2'') = ascii ''W2''" "clean_str (ascii ''W3'') = ascii ''W3''"
  "clean_str (ascii ''2026-03-10'') = ascii ''2026-03-10''"
  "clean_str (ascii ''2026-03-09'') = ascii ''2026-03-09''"
  "clean_str (ascii ''n/a'') = ascii ''n/a''"
  "clean_str (ascii ''15:30'' @ 8211 # ascii ''16:00 IST'') = ascii ''15:30'' @ 8211 # ascii ''16:00 IST''"
  "clean_str (ascii ''15:30 IST'') = ascii ''15:30 IST''"
  "clean_str (ascii ''15:30'') = ascii ''15:30''"
  "clean_str (ascii ''16:00-15:30'') = ascii ''16:00-15:30''"
  by (simp_all add: str_eval)

lemma strip_ex:
  "py_strip (ascii ''2026-03-10'') = ascii ''2026-03-10''"
  "py_strip (ascii ''2026-03-09'') = ascii ''2026-03-09''"
  "py_strip (ascii ''n/a'') = ascii ''n/a''"
  "py_strip (ascii ''15:30'' @ 8211 # ascii ''16:00 IST'') = ascii ''15:30'' @ 8211 # ascii ''16:00 IST''"
  "py_strip (ascii ''15:30 IST'') = ascii ''15:30 IST''"
  "py_strip (ascii ''15:30'') = ascii ''15:30''"
  "py_strip (ascii ''16:00-15:30'') = ascii ''16:00-15:30''"
  by (simp_all add: ascii_def py_strip_def isspace_def)

lemma date_ex:
  "parse_date (ascii ''2026-03-10'') = Some 739685"
  "parse_date (ascii ''2026-03-09'') = Some 739684"
  "parse_date (ascii ''n/a'') = None"
  by (simp_all add: parse_date_def ascii_def parse_eval isspace_def date_eval)

lemma hhmm_ex: "ascii ''15:30'' = hhmm 15 30" "ascii ''16:00'' = hhmm 16 0"
  by (simp_all add: ascii_def hhmm_def two_digits_def)

lemma time_ex:
  "parse_time_range (Str (ascii ''15:30'' @ 8211 # ascii ''16:00 IST'')) = (Some (15, 30), Some (16, 0))"
  "parse_time_range (Str (ascii ''15:30 IST'')) = (Some (15, 30), None)"
  "parse_time_range (Str (ascii ''15:30'')) = (Some (15, 30), None)"
  "parse_time_range (Str (ascii ''16:00-15:30'')) = (Some (16, 0), Some (15, 30))"
  by (simp_all add: ascii_def str_eval parse_eval)

lemma mk_row_clean: "clean_row (mk_row w d t) = mk_row w d (clean_str t)"
  if "clean_str (ascii w) = ascii w" "clean_str (ascii d) = ascii d"
  using that by (simp add: clean_row_def mk_row_def)

lemma mk_row_strs: "date_str (mk_row w d t) = py_strip (ascii d)" "time_str (mk_row w d t) = py_strip t"
  by (simp_all add: date_str_def time_str_def mk_row_def get_def ascii_def)

lemma inst_ex:
  "row_instants (mk_row ''W2'' ''2026-03-10'' (ascii ''15:30'' @ 8211 # ascii ''16:00 IST''))
     = Inr (Some (combine 739685 (15, 30)), Some (combine 739685 (16, 0)))"
  "row_instants (mk_row ''W1'' ''2026-03-10'' (ascii ''15:30 IST''))
     = Inr (Some (combine 739685 (15, 30)), Some (combine 739685 (16, 0)))"
  "row_instants (mk_row ''W0'' ''n/a'' (ascii ''15:30'')) = Inr (None, None)"
  "row_instants (mk_row ''W3'' ''2026-03-09'' (ascii ''16:00-15:30''))
     = Inr (Some (combine 739684 (16, 0)), Some (combine 739684 (15, 30)))"
  by (simp_all add: row_instants_def mk_row_strs strip_ex date_ex time_ex combine_def dt_add_def
      dt_max_def minutes_def del: parse_time_range.simps)

lemma cells_ex:
  "month_cell (DT (combine 739685 (15, 30))) = Num 3" "day_cell (DT (combine 739685 (15, 30))) = Str (ascii ''Tue'')"
  "month_cell (DT (combine 739684 (16, 0))) = Num 3" "day_cell (DT (combine 739684 (16, 0))) = Str (ascii ''Mon'')"
  "month_cell NaT = NaN" "day_cell NaT = NaN"
  by (simp_all add: month_cell_def day_cell_def dt_eval date_eval)

lemma week_ex: "week \<lparr>cells = ex_cells w d t m dn, start_ist = s, end_ist = e\<rparr> = Str (ascii w)"
  by (simp add: week_def ex_cells_def mk_row_def get_def ascii_def)

lemma enrich_example: "enrich_schedule example_raw = Inr example_enriched"
proof -
  let ?ps = "[(Some (combine 739685 (15, 30)), Some (combine 739685 (16, 0))),
              (Some (combine 739685 (15, 30)), Some (combine 739685 (16, 0))),
              (None, None),
              (Some (combine 739684 (16, 0)), Some (combine 739684 (15, 30)))]"
  have c: "map clean_row (rows example_raw) = rows example_raw"
    by (simp add: example_raw_def mk_row_clean clean_ex)
  have i: "all_instants (rows example_raw) = Inr ?ps"
    by (simp add: example_raw_def inst_ex)
  have h: "\<not> has_col example_raw ''Month #''" "\<not> has_col example_raw ''Day''"
    by (simp_all add: has_col_def example_raw_def ascii_def)
  have o: "out_columns example_raw = ecolumns example_enriched"
    by (simp add: out_columns_def h) (simp add: example_raw_def example_enriched_def)
  have a: "assemble example_raw ?ps = example_built"
    unfolding assemble_def c
    by (simp add: h) (simp add: example_raw_def example_built_def to_column_def build_row_def
        cells_ex ex_cells_def)
  have k: "combine 739684 (16, 0) < combine 739685 (15, 30)" by (simp add: combine_def)
  have w: "\<not> ascii ''W2'' \<le> ascii ''W1''" by (simp add: ascii_def)
  have s: "sort_key row_key example_built = erows example_enriched"
    using k w
    by (simp add: example_built_def example_enriched_def row_key_def week_ex start_key_def week_key_def)
  have m: "\<not> mixed_weeks example_built"
    by (simp add: mixed_weeks_def example_built_def week_ex is_Num_def)
  have d: "list_ex is_DT (to_column (map fst ?ps))"
    by (simp add: to_column_def is_DT_def)
  show ?thesis
    unfolding enrich_schedule_def c i
    using d by (simp add: h a o sort_rows_def m s example_enriched_def ascii_def)
qed

section \<open>The rows of the enriched table\<close>

lemma all_instants_nth:
  "all_instants rs = Inr ps
   \<Longrightarrow> length ps = length rs \<and> (\<forall>i<length rs. row_instants (rs ! i) = Inr (ps ! i))"
proof (induction rs arbitrary: ps)
  case Nil
  then show ?case by simp
next
  case (Cons r rs)
  then obtain p ps' where p: "row_instants r = Inr p" "all_instants rs = Inr ps'" "ps = p # ps'"
    by (auto split: sum.splits)
  with Cons.IH [of ps'] show ?case by (auto simp: nth_Cons split: nat.splits)
qed

lemma to_column_length: "length (to_column xs) = length xs"
  by (simp add: to_column_def)

lemma to_column_DT:
  assumes "i < length xs"
  shows "to_column xs ! i = DT d \<longleftrightarrow> xs ! i = Some d"
proof (cases "list_ex (\<lambda>x. x \<noteq> None) xs")
  case True
  with assms show ?thesis by (auto simp: to_column_def split: option.splits)
next
  case False
  then have "xs ! i = None" using assms by (auto simp: list_ex_iff)
  with False assms show ?thesis by (simp add: to_column_def)
qed

lemma extras_keys:
  "ascii ''Date'' \<noteq> ascii ''Month #''" "ascii ''Date'' \<noteq> ascii ''Day''"
  "ascii ''Time'' \<noteq> ascii ''Month #''" "ascii ''Time'' \<noteq> ascii ''Day''"
  "ascii ''Week'' \<noteq> ascii ''Month #''" "ascii ''Week'' \<noteq> ascii ''Day''"
  by (simp_all add: ascii_def)

lemma get_build_row:
  assumes "k \<noteq> ascii ''Month #''" "k \<noteq> ascii ''Day''"
  shows "get (cells (build_row hm hdy (r, s, e))) k dflt = get r k dflt"
  using assms by (auto simp: build_row_def get_def map_add_def split: option.splits)

lemma strs_build_row:
  "date_str (cells (build_row hm hdy (r, s, e))) = date_str r"
  "time_str (cells (build_row hm hdy (r, s, e))) = time_str r"
  by (simp_all add: date_str_def time_str_def get_build_row extras_keys)

lemma row_instants_cong:
  "date_str a = date_str b \<Longrightarrow> time_str a = time_str b \<Longrightarrow> row_instants a = row_instants b"
  by (simp add: row_instants_def)

lemma assemble_nth:
  assumes "all_instants (map clean_row (rows df)) = Inr ps" "i < length (rows df)"
  shows "assemble df ps ! i =
         build_row (has_col df ''Month #'') (has_col df ''Day'')
           (clean_row (rows df ! i), to_column (map fst ps) ! i, to_column (map snd ps) ! i)"
    and "length (assemble df ps) = length (rows df)"
proof -
  have l: "length ps = length (rows df)" using all_instants_nth [OF assms(1)] by simp
  then show "length (assemble df ps) = length (rows df)"
    by (simp add: assemble_def to_column_length)
  show "assemble df ps ! i =
         build_row (has_col df ''Month #'') (has_col df ''Day'')
           (clean_row (rows df ! i), to_column (map fst ps) ! i, to_column (map snd ps) ! i)"
    using assms(2) l by (simp add: assemble_def to_column_length)
qed

lemma enrich_row:
  assumes "enrich_schedule df = Inr t" "r \<in> set (erows t)"
  obtains s e where "row_instants (cells r) = Inr (s, e)"
    and "\<And>x. start_ist r = DT x \<longleftrightarrow> s = Some x"
    and "\<And>y. end_ist r = DT y \<longleftrightarrow> e = Some y"
proof -
  from assms(1) obtain ps where ps: "all_instants (map clean_row (rows df)) = Inr ps"
    and t: "t = \<lparr>ecolumns = out_columns df, erows = sort_key row_key (assemble df ps)\<rparr>"
    by (rule enrich_InrD)
  from assms(2) t have "r \<in> set (assemble df ps)" by simp
  then obtain i where i: "i < length (assemble df ps)" "r = assemble df ps ! i"
    by (auto simp: in_set_conv_nth)
  have "length (assemble df ps) = length (rows df)"
    using all_instants_nth [OF ps] by (simp add: assemble_def to_column_length)
  then have il: "i < length (rows df)" using i(1) by simp
  have lp: "length ps = length (rows df)" using all_instants_nth [OF ps] by simp
  let ?c = "clean_row (rows df ! i)"
  have r: "r = build_row (has_col df ''Month #'') (has_col df ''Day'')
             (?c, to_column (map fst ps) ! i, to_column (map snd ps) ! i)"
    using i(2) assemble_nth(1) [OF ps il] by simp
  have ri: "row_instants ?c = Inr (ps ! i)"
    using all_instants_nth [OF ps] il by simp
  have "row_instants (cells r) = row_instants ?c"
    unfolding r by (rule row_instants_cong) (simp_all add: strs_build_row)
  then have 1: "row_instants (cells r) = Inr (fst (ps ! i), snd (ps ! i))" using ri by simp
  have 2: "start_ist r = DT x \<longleftrightarrow> fst (ps ! i) = Some x" for x
    using to_column_DT [of i "map fst ps" x] il lp by (simp add: r build_row_def)
  have 3: "end_ist r = DT y \<longleftrightarrow> snd (ps ! i) = Some y" for y
    using to_column_DT [of i "map snd ps" y] il lp by (simp add: r build_row_def)
  from 1 2 3 show ?thesis by (rule that)
qed

lemma enrich_row_ex:
  assumes "enrich_schedule df = Inr t" "r \<in> set (erows t)"
  shows "\<exists>so eo. row_instants (cells r) = Inr (so, eo)
           \<and> (\<forall>x. start_ist r = DT x \<longleftrightarrow> so = Some x)
           \<and> (\<forall>y. end_ist r = DT y \<longleftrightarrow> eo = Some y)"
  using assms by (rule enrich_row) blast

lemma row_instants_start:
  assumes "row_instants c = Inr (Some x, e)"
  obtains d ts where "parse_date (date_str c) = Some d"
    and "fst (parse_time_range (Str (time_str c))) = Some ts"
    and "x = combine d ts"
    and "case snd (parse_time_range (Str (time_str c))) of
           None \<Rightarrow> e = Some (x + minutes 30) \<and> 0 \<le> x + minutes 30 \<and> x + minutes 30 < dt_max
         | Some te \<Rightarrow> e = Some (combine d te)"
proof -
  obtain st et where pt: "parse_time_range (Str (time_str c)) = (st, et)"
    by (cases "parse_time_range (Str (time_str c))")
  from assms pt obtain d ts where d: "parse_date (date_str c) = Some d" and ts: "st = Some ts"
    and x: "x = combine d ts"
    by (auto simp: row_instants_def Let_def dt_add_def split: option.splits if_splits
        simp del: parse_time_range.simps)
  have "case et of
          None \<Rightarrow> e = Some (x + minutes 30) \<and> 0 \<le> x + minutes 30 \<and> x + minutes 30 < dt_max
        | Some te \<Rightarrow> e = Some (combine d te)"
    using assms pt d ts x
    by (auto simp: row_instants_def Let_def dt_add_def split: option.splits if_splits
        simp del: parse_time_range.simps)
  with pt d ts x show ?thesis by (intro that [of d ts]) simp_all
qed

lemma combine_le: "combine d a \<le> combine d b \<longleftrightarrow> clock a \<le> clock b"
proof -
  have c: "combine d t = ((d - 1) * 1440 + clock t) * 60000000" for t
    by (simp add: combine_def clock_def)
  have "((d - 1) * 1440 + clock a) * 60000000 \<le> ((d - 1) * 1440 + clock b) * 60000000
        \<longleftrightarrow> (d - 1) * 1440 + clock a \<le> (d - 1) * 1440 + clock b"
    by (rule mult_le_cancel_right_pos) simp
  then show ?thesis unfolding c by simp
qed

lemma row_instants_err: "row_instants c = Inl e \<Longrightarrow> e = OverflowError"
  by (auto simp: row_instants_def Let_def dt_add_def split: option.splits if_splits prod.splits
      simp del: parse_time_range.simps)

lemma all_instants_err: "all_instants rs = Inl e \<Longrightarrow> e = OverflowError"
  by (induction rs) (auto split: sum.splits dest: row_instants_err)



lemma ex_cells_strs:
  "date_str (ex_cells w d t m dn) = py_strip (ascii d)" "time_str (ex_cells w d t m dn) = py_strip t"
  by (simp_all add: date_str_def time_str_def ex_cells_def mk_row_def get_def ascii_def)


section \<open>The claims\<close>

text \<open>
  Claim C5. For every string the Text Normalizer returns a string that holds no occurrence
  of the line-break artifact \<open>_x000D_\<close> and no code point below 0x20; the only whitespace
  left in it is the single space, no two spaces are adjacent and none stands first or
  last, and its words are the words of the text after the two substitutions. Every value
  that is not a string is returned unchanged. The function is total: none of the string
  operations it calls raises on a string.
\<close>

theorem clean_text_normalises:
  "(\<exists>y. clean_text (Str x) = Str y
        \<and> \<not> sublist artifact y
        \<and> (\<forall>c\<in>set y. 32 \<le> c \<and> (isspace c \<longrightarrow> c = 32))
        \<and> \<not> sublist [32, 32] y \<and> \<not> prefix [32] y \<and> \<not> suffix [32] y
        \<and> py_split y = py_split (sub_ctrl (py_replace artifact [32] x)))
   \<and> clean_text (Num n) = Num n \<and> clean_text NaN = NaN"
  using clean_str_no_artifact [of x] clean_str_chars [of _ x] clean_str_spacing [of x]
    clean_str_words [of x]
  by auto

theorem clean_text_normalises_witness:
  "clean_text (Str (ascii ''  a_x000D_b'' @ [9, 1, 160] @ ascii ''c_x000D_ '')) = Str (ascii ''a b c'')
   \<and> \<not> sublist artifact (ascii ''a b c'')
   \<and> clean_text (Num 7) = Num 7 \<and> clean_text NaN = NaN"
  using clean_text_normalises [of "ascii ''  a_x000D_b'' @ [9, 1, 160] @ ascii ''c_x000D_ ''" 7]
  by (simp add: clean_str_def artifact_code ascii_def py_split_def isspace_def)

text \<open>
  Claim C3. For every string the Time-Range Parser returns a pair and never raises: the
  text is normalised and cut at its hyphens (\<open>time_parts\<close>, never empty), the start is
  read from the first part and the end from the second, and a part gives a time exactly
  when it is a clock text (\<open>clock_text\<close>: one or two digits, a colon, one or two digits,
  the hour below 24 and the minute below 60); every other part, malformed or out of
  range, gives an absent value for its component, and a text of one part gives an absent
  end. On two tokens around a hyphen or an en-dash, with any whitespace or control
  characters before, between and after them and with or without the label \<open>IST\<close>, the
  two components are the readings of the two tokens; on one token, the start is its
  reading and the end is absent. Two-digit texts \<open>HH:MM\<close> read as their time when it is
  valid. A text with no digit, and every value that is not a string, gives two absent
  values.
\<close>

theorem parse_time_range_spec:
  "time_parts x \<noteq> []
   \<and> parse_time_range (Str x) =
       (clock_text (hd (time_parts x)),
        case tl (time_parts x) of [] \<Rightarrow> None | q # _ \<Rightarrow> clock_text q)
   \<and> (clock_text p = Some (h, m) \<longrightarrow> 0 \<le> h \<and> h < 24 \<and> 0 \<le> m \<and> m < 60)
   \<and> (0 \<le> h1 \<and> h1 < 100 \<and> 0 \<le> m1 \<and> m1 < 100 \<longrightarrow> clock_text (hhmm h1 m1) = valid_time h1 m1)
   \<and> ((\<forall>c\<in>set A \<union> set B. token_char c) \<and> A \<noteq> [] \<and> B \<noteq> []
        \<and> (\<forall>c\<in>set (g0 @ g1 @ g2 @ g3 @ g4). blank c) \<and> g3 \<noteq> []
        \<and> (sep = 45 \<or> sep = 8211) \<and> (lbl = [] \<or> lbl = g3 @ ascii ''IST'')
       \<longrightarrow> parse_time_range (Str (g0 @ A @ g1 @ [sep] @ g2 @ B @ lbl @ g4))
             = (clock_text A, clock_text B)
           \<and> parse_time_range (Str (g0 @ A @ lbl @ g4)) = (clock_text A, None))
   \<and> ((sep = 45 \<or> sep = 8211) \<and> (tz = [] \<or> tz = ascii '' IST'')
        \<and> 0 \<le> h1 \<and> h1 < 100 \<and> 0 \<le> m1 \<and> m1 < 100
        \<and> 0 \<le> h2 \<and> h2 < 100 \<and> 0 \<le> m2 \<and> m2 < 100
       \<longrightarrow> parse_time_range (Str (hhmm h1 m1 @ [sep] @ hhmm h2 m2 @ tz))
             = (valid_time h1 m1, valid_time h2 m2)
           \<and> parse_time_range (Str (hhmm h1 m1 @ tz)) = (valid_time h1 m1, None))
   \<and> ((\<forall>c\<in>set y. digit_val c = None) \<longrightarrow> parse_time_range (Str y) = (None, None))
   \<and> parse_time_range (Num n) = (None, None) \<and> parse_time_range NaN = (None, None)"
proof -
  have fam: "parse_time_range (Str (g0 @ A @ g1 @ [sep] @ g2 @ B @ lbl @ g4))
               = (clock_text A, clock_text B)
             \<and> parse_time_range (Str (g0 @ A @ lbl @ g4)) = (clock_text A, None)"
    if t: "\<forall>c\<in>set A \<union> set B. token_char c" "A \<noteq> []" "B \<noteq> []"
      and g: "\<forall>c\<in>set (g0 @ g1 @ g2 @ g3 @ g4). blank c" "g3 \<noteq> []"
      and sep: "sep = 45 \<or> sep = 8211" and lbl: "lbl = [] \<or> lbl = g3 @ ascii ''IST''"
  proof -
    have A: "\<forall>c\<in>set A. token_char c" and B: "\<forall>c\<in>set B. token_char c" using t(1) by auto
    have gs: "\<forall>c\<in>set g0. blank c" "\<forall>c\<in>set g1. blank c" "\<forall>c\<in>set g2. blank c"
      "\<forall>c\<in>set g3. blank c" "\<forall>c\<in>set g4. blank c"
      using g(1) by auto
    have "time_parts (g0 @ A @ g1 @ [sep] @ g2 @ B @ lbl @ g4) = [A, B]"
      using A t(2) B t(3) gs g(2) sep lbl by (rule time_parts_family(1))
    moreover have "time_parts (g0 @ A @ lbl @ g4) = [A]"
      using A t(2) B t(3) gs g(2) sep lbl by (rule time_parts_family(2))
    ultimately show ?thesis by (simp add: parse_time_range_parts del: parse_time_range.simps)
  qed
  have two: "parse_time_range (Str (hhmm h1 m1 @ [sep] @ hhmm h2 m2 @ tz))
               = (valid_time h1 m1, valid_time h2 m2)
             \<and> parse_time_range (Str (hhmm h1 m1 @ tz)) = (valid_time h1 m1, None)"
    if sep: "sep = 45 \<or> sep = 8211" and tz: "tz = [] \<or> tz = ascii '' IST''"
      and r: "0 \<le> h1" "h1 < 100" "0 \<le> m1" "m1 < 100" "0 \<le> h2" "h2 < 100" "0 \<le> m2" "m2 < 100"
  proof -
    have a: "hhmm h1 m1 \<noteq> []" "\<forall>c\<in>set (hhmm h1 m1). 48 \<le> c \<and> c \<le> 58"
      using hhmm_chars [OF r(1-4)] by simp_all
    have b: "hhmm h2 m2 \<noteq> []" "\<forall>c\<in>set (hhmm h2 m2). 48 \<le> c \<and> c \<le> 58"
      using hhmm_chars [OF r(5-8)] by simp_all
    have "time_parts (hhmm h1 m1 @ [sep] @ hhmm h2 m2 @ tz) = [hhmm h1 m1, hhmm h2 m2]"
      using a b sep tz by (rule time_parts_range)
    moreover have "time_parts (hhmm h1 m1 @ tz) = [hhmm h1 m1]"
      using a tz by (rule time_parts_single)
    ultimately show ?thesis
      using parse_part_hhmm [OF r(1-4)] parse_part_hhmm [OF r(5-8)] by simp
  qed
  have ck: "clock_text (hhmm h1 m1) = valid_time h1 m1"
    if "0 \<le> h1" "h1 < 100" "0 \<le> m1" "m1 < 100"
    using parse_part_hhmm [OF that] by (simp add: parse_part_clock)
  show ?thesis
    using time_parts_not_Nil [of x] parse_time_range_parts [of x] clock_text_range [of p h m]
      ck fam two parse_time_range_garbage [of y]
    by simp
qed

theorem parse_time_range_spec_witness:
  "parse_time_range (Str (ascii ''15:30'' @ [8211] @ ascii ''16:00 IST'')) = (Some (15, 30), Some (16, 0))
   \<and> parse_time_range (Str (ascii '' 15:30 -'' @ [9] @ ascii ''16:00   IST '')) = (Some (15, 30), Some (16, 0))
   \<and> parse_time_range (Str (ascii ''15:30 IST'')) = (Some (15, 30), None)
   \<and> parse_time_range (Str (ascii ''15:30abc-16:00 pm'')) = (None, None)
   \<and> parse_time_range (Str (ascii ''24:00-16:75'')) = (None, None)
   \<and> parse_time_range (Str (ascii ''tbd'')) = (None, None)"
proof -
  note every = parse_time_range_spec [THEN conjunct2, THEN conjunct1]
  note clock = parse_time_range_spec [THEN conjunct2, THEN conjunct2, THEN conjunct2, THEN conjunct1]
  note family = parse_time_range_spec [THEN conjunct2, THEN conjunct2, THEN conjunct2,
      THEN conjunct2, THEN conjunct1]
  note exact = parse_time_range_spec [THEN conjunct2, THEN conjunct2, THEN conjunct2,
      THEN conjunct2, THEN conjunct2, THEN conjunct1]
  note garbage = parse_time_range_spec [THEN conjunct2, THEN conjunct2, THEN conjunct2,
      THEN conjunct2, THEN conjunct2, THEN conjunct2, THEN conjunct1]
  have c: "clock_text (hhmm 15 30) = Some (15, 30)" "clock_text (hhmm 16 0) = Some (16, 0)"
    using clock [of 15 30] clock [of 16 0] by (simp_all add: valid_time_def)
  have 1: "parse_time_range (Str (ascii ''15:30'' @ [8211] @ ascii ''16:00 IST'')) = (Some (15, 30), Some (16, 0))"
    using exact [of 8211 "ascii '' IST''" 15 30 16 0]
    by (simp add: valid_time_def ascii_def hhmm_def two_digits_def del: parse_time_range.simps)
  have 3: "parse_time_range (Str (ascii ''15:30 IST'')) = (Some (15, 30), None)"
    using exact [of 8211 "ascii '' IST''" 15 30 16 0]
    by (simp add: valid_time_def ascii_def hhmm_def two_digits_def del: parse_time_range.simps)
  have 5: "parse_time_range (Str (ascii ''24:00-16:75'')) = (None, None)"
    using exact [of 45 "[]" 24 0 16 75]
    by (simp add: valid_time_def ascii_def hhmm_def two_digits_def del: parse_time_range.simps)
  have 6: "parse_time_range (Str (ascii ''tbd'')) = (None, None)"
    using garbage [of "ascii ''tbd''"]
    by (simp add: ascii_def digit_val_mid del: parse_time_range.simps)
  have 2: "parse_time_range (Str (ascii '' 15:30 -'' @ [9] @ ascii ''16:00   IST '')) = (Some (15, 30), Some (16, 0))"
    using family [of "hhmm 15 30" "hhmm 16 0" "[32]" "[32]" "[9]" "[32, 32, 32]" "[32]" 45
        "[32, 32, 32] @ ascii ''IST''"] c
    by (simp add: hhmm_def two_digits_def ascii_def token_char_def blank_def isspace_def
        del: parse_time_range.simps)
  have tp: "time_parts (ascii ''15:30abc-16:00 pm'') = [ascii ''15:30abc'', ascii ''16:00 pm'']"
    by (simp add: ascii_def time_parts_def clean_str_def artifact_code py_split_def isspace_def
        py_strip_def)
  have ct: "clock_text (ascii ''15:30abc'') = None" "clock_text (ascii ''16:00 pm'') = None"
    by (simp_all add: ascii_def clock_text_def digit_val_ascii)
  have 4: "parse_time_range (Str (ascii ''15:30abc-16:00 pm'')) = (None, None)"
    using every [of "ascii ''15:30abc-16:00 pm''"] tp ct
    by (simp del: parse_time_range.simps)
  from 1 2 3 4 5 6 show ?thesis by simp
qed






text \<open>
  Claim C1, as stated, fails: the end time of a row is taken from the text as it is, so
  the row \<open>Date = 2026-03-09, Time = 16:00-15:30\<close> of the example gets a start instant of
  16:00 and an end instant of 15:30 on that day.
\<close>

theorem enrich_end_before_start_counterexample:
  "enrich_schedule example_raw = Inr example_enriched
   \<and> start_ist (erows example_enriched ! 0) = DT (combine 739684 (16, 0))
   \<and> end_ist (erows example_enriched ! 0) = DT (combine 739684 (15, 30))
   \<and> combine 739684 (15, 30) < combine 739684 (16, 0)"
  by (simp add: enrich_example) (simp add: example_enriched_def combine_def)

text \<open>
  Claim C1, amended. For every row of a table the Schedule Enricher returns in which the
  start instant is present, the end instant is present: it is the start instant plus 30
  minutes, and so not before it, when the row's time text gives no end time; and when
  the text gives an end time it is that clock time on the row's date, which is at or
  after the start instant exactly when the end clock time is not earlier than the start
  clock time.
\<close>

theorem enrich_schedule_end_instant:
  assumes "enrich_schedule df = Inr t" "r \<in> set (erows t)" "start_ist r = DT s"
  shows "\<exists>d ts e. parse_date (date_str (cells r)) = Some d
           \<and> fst (parse_time_range (Str (time_str (cells r)))) = Some ts
           \<and> s = combine d ts \<and> end_ist r = DT e
           \<and> (case snd (parse_time_range (Str (time_str (cells r)))) of
                None \<Rightarrow> e = s + minutes 30 \<and> s \<le> e
              | Some te \<Rightarrow> e = combine d te \<and> (s \<le> e \<longleftrightarrow> clock ts \<le> clock te))"
proof -
  from enrich_row_ex [OF assms(1,2)] obtain so eo
    where ri: "row_instants (cells r) = Inr (so, eo)"
      and st: "\<And>x. start_ist r = DT x \<longleftrightarrow> so = Some x"
      and en: "\<And>y. end_ist r = DT y \<longleftrightarrow> eo = Some y"
    by blast
  from assms(3) st have so: "so = Some s" by simp
  from ri so obtain d ts where d: "parse_date (date_str (cells r)) = Some d"
    and ts: "fst (parse_time_range (Str (time_str (cells r)))) = Some ts"
    and s: "s = combine d ts"
    and e: "case snd (parse_time_range (Str (time_str (cells r)))) of
              None \<Rightarrow> eo = Some (s + minutes 30) \<and> 0 \<le> s + minutes 30 \<and> s + minutes 30 < dt_max
            | Some te \<Rightarrow> eo = Some (combine d te)"
    by (auto elim: row_instants_start)
  show ?thesis
  proof (cases "snd (parse_time_range (Str (time_str (cells r))))")
    case None
    with e have "eo = Some (s + minutes 30)" by simp
    then have "end_ist r = DT (s + minutes 30)" using en by simp
    with None d ts s show ?thesis by (simp add: minutes_def del: parse_time_range.simps)
  next
    case (Some te)
    with e have "eo = Some (combine d te)" by simp
    then have "end_ist r = DT (combine d te)" using en by simp
    with Some d ts s show ?thesis by (simp add: combine_le del: parse_time_range.simps)
  qed
qed

theorem enrich_schedule_end_instant_witness:
  "enrich_schedule example_raw = Inr example_enriched
   \<and> erows example_enriched ! 1 \<in> set (erows example_enriched)
   \<and> start_ist (erows example_enriched ! 1) = DT (combine 739685 (15, 30))
   \<and> parse_time_range (Str (time_str (cells (erows example_enriched ! 1)))) = (Some (15, 30), None)
   \<and> end_ist (erows example_enriched ! 1) = DT (combine 739685 (15, 30) + minutes 30)"
proof -
  let ?r = "erows example_enriched ! 1"
  have h: "?r \<in> set (erows example_enriched)" "start_ist ?r = DT (combine 739685 (15, 30))"
    by (simp_all add: example_enriched_def)
  have p: "parse_time_range (Str (time_str (cells ?r))) = (Some (15, 30), None)"
    by (simp add: example_enriched_def ex_cells_strs strip_ex time_ex del: parse_time_range.simps)
  from enrich_schedule_end_instant [OF enrich_example h]
  have "end_ist ?r = DT (combine 739685 (15, 30) + minutes 30)"
    unfolding p by auto
  with enrich_example h p show ?thesis by simp
qed




end
